theory Spec2Isabelle
  imports Main
begin

text \<open>
  The permission model of the role and permission console: the lookup of a pair's row
  and its default, the toggle cycle, the role-name gate, the CSV export, the action
  filter, and the write path of \<^verbatim>\<open>updatePermission\<close> against the store's
  \<^verbatim>\<open>permissions\<close> table. Definitions come first, each beside the source text it
  follows; the properties proved of them come after.
\<close>

section \<open>Data model\<close>

text \<open>
  The rows of the three catalog tables as the components declare them
  (\<^verbatim>\<open>DatabaseRole\<close>, \<^verbatim>\<open>DatabaseAction\<close>, \<^verbatim>\<open>DatabasePermission\<close>,
  \<^verbatim>\<open>DatabaseProfile\<close>). Identifiers are strings (UUIDs in the store). The columns
  \<^verbatim>\<open>limit_value INTEGER\<close> and \<^verbatim>\<open>conditions TEXT\<close> are nullable, hence options;
  \<^verbatim>\<open>description\<close> is read with \<^verbatim>\<open>?.\<close> by the view and is nullable in the schema,
  hence an option too. The time stamps \<^verbatim>\<open>created_at\<close> and \<^verbatim>\<open>updated_at\<close> are
  read by no function modelled here and are left out.
\<close>

datatype status = Granted | Denied | Conditional

record role =
  r_id :: string
  r_name :: string
  r_description :: "string option"
  r_color :: string
  is_system_role :: bool

record action =
  a_id :: string
  a_name :: string
  a_description :: "string option"
  a_category :: string

record permission =
  p_id :: string
  role_id :: string
  action_id :: string
  status :: status
  limit_value :: "int option"
  conditions :: "string option"

record profile =
  pr_id :: string
  user_id :: string
  full_name :: "string option"
  email :: "string option"
  pr_role_id :: "string option"

section \<open>Permission resolver\<close>

text \<open>
  \<^verbatim>\<open>p => p.role_id === roleId && p.action_id === actionId\<close>, the predicate handed to
  \<^verbatim>\<open>find\<close>.
\<close>

definition matches :: "string \<Rightarrow> string \<Rightarrow> permission \<Rightarrow> bool" where
  "matches roleId actionId p = (role_id p = roleId \<and> action_id p = actionId)"

text \<open>
  \<^verbatim>\<open>getPermission\<close> (the same text in the container and in the view):
  \<^verbatim>\<open>permissions.find(...)\<close>, with \<^verbatim>\<open>undefined\<close> as \<open>None\<close>.
\<close>

definition getPermission :: "permission list \<Rightarrow> string \<Rightarrow> string \<Rightarrow> permission option" where
  "getPermission perms roleId actionId = find (matches roleId actionId) perms"

text \<open>
  The three reads of a looked-up row. \<^verbatim>\<open>permission?.status || 'denied'\<close>: the three
  status strings are non-empty, so \<^verbatim>\<open>||\<close> takes its right operand only for
  \<^verbatim>\<open>undefined\<close>. \<^verbatim>\<open>permission?.limit_value\<close> and \<^verbatim>\<open>permission?.conditions\<close> are
  optional chaining.
\<close>

definition currentStatus :: "permission option \<Rightarrow> status" where
  "currentStatus permission = (case permission of None \<Rightarrow> Denied | Some p \<Rightarrow> status p)"

definition limit_of :: "permission option \<Rightarrow> int option" where
  "limit_of permission = Option.bind permission limit_value"

definition conditions_of :: "permission option \<Rightarrow> string option" where
  "conditions_of permission = Option.bind permission conditions"

text \<open>
  \<^verbatim>\<open>getStatusBadge\<close>: the badge variant and its label. The \<^verbatim>\<open>default\<close> branch of the
  \<^verbatim>\<open>switch\<close> is unreachable for the three status values.
\<close>

datatype badge_variant = Secondary | Default | Outline | Destructive

definition getStatusBadge :: "permission option \<Rightarrow> badge_variant \<times> string" where
  "getStatusBadge permission =
     (case permission of
        None \<Rightarrow> (Secondary, ''Denied'')
      | Some p \<Rightarrow>
          (case status p of
             Granted \<Rightarrow> (Default, ''Granted'')
           | Conditional \<Rightarrow> (Outline, ''Conditional'')
           | Denied \<Rightarrow> (Destructive, ''Denied'')))"

text \<open>
  The uniqueness invariant of the data model, \<^verbatim>\<open>UNIQUE(role_id, action_id)\<close>: no two
  rows of a list carry the same pair.
\<close>

definition pair_of :: "permission \<Rightarrow> string \<times> string" where
  "pair_of p = (role_id p, action_id p)"

definition unique_pairs :: "permission list \<Rightarrow> bool" where
  "unique_pairs perms = distinct (map pair_of perms)"

section \<open>Toggle cycle\<close>

text \<open>
  The click handler of a cell:
  \<^verbatim>\<open>currentStatus === 'denied' ? 'granted' : currentStatus === 'granted' ? 'conditional' : 'denied'\<close>.
\<close>

definition nextStatus :: "status \<Rightarrow> status" where
  "nextStatus cur =
     (if cur = Denied then Granted
      else if cur = Granted then Conditional
      else Denied)"

section \<open>Access policy gate\<close>

text \<open>
  \<^verbatim>\<open>setUserRole(userRoleRes.data || '')\<close>: the role name returned by the remote call
  \<^verbatim>\<open>get_user_role\<close>, with null (no profile, no role, failed call) and the empty
  string both read as the empty string.
\<close>

definition userRole_of :: "string option \<Rightarrow> string" where
  "userRole_of data = (case data of None \<Rightarrow> [] | Some n \<Rightarrow> n)"

text \<open>\<^verbatim>\<open>const isAdmin = userRole === 'Admin'\<close> and
  \<^verbatim>\<open>const canEdit = userRole === 'Edit & View' || userRole === 'Admin'\<close>.\<close>

definition isAdmin :: "string \<Rightarrow> bool" where
  "isAdmin userRole = (userRole = ''Admin'')"

definition canEdit :: "string \<Rightarrow> bool" where
  "canEdit userRole = (userRole = ''Edit & View'' \<or> userRole = ''Admin'')"

text \<open>
  The store's own gate, the SQL functions \<^verbatim>\<open>is_admin()\<close> and \<^verbatim>\<open>can_edit()\<close> over the
  result of \<^verbatim>\<open>get_user_role\<close>. A comparison with NULL is NULL (\<open>None\<close>), and a policy
  \<^verbatim>\<open>USING (b)\<close> lets a row through only where \<open>b\<close> is true.
\<close>

definition is_admin :: "string option \<Rightarrow> bool option" where
  "is_admin user_role = map_option (\<lambda>n. n = ''Admin'') user_role"

definition can_edit :: "string option \<Rightarrow> bool option" where
  "can_edit user_role = map_option (\<lambda>n. n = ''Edit & View'' \<or> n = ''Admin'') user_role"

definition policy_using :: "bool option \<Rightarrow> bool" where
  "policy_using b = (b = Some True)"

text \<open>
  What the two components offer for a role name: the matrix is rendered for everyone,
  the toggle button of a cell only under \<^verbatim>\<open>canEdit\<close>, the admin panel only under
  \<^verbatim>\<open>isAdmin\<close>.
\<close>

datatype operation = ViewMatrix | EditPermission | Administer

definition permitted :: "string \<Rightarrow> operation set" where
  "permitted userRole =
     {ViewMatrix} \<union> (if canEdit userRole then {EditPermission} else {})
                  \<union> (if isAdmin userRole then {Administer} else {})"

text \<open>
  The gate in the words of the specification, for comparison with the code: role name
  "Admin" gives admin, "Edit & View" gives edit, any other role or no role gives
  view-only; admin implies edit and view, edit implies view.
\<close>

datatype capability = ViewOnly | Edit | Admin

definition capability_of :: "string option \<Rightarrow> capability" where
  "capability_of role_name =
     (if role_name = Some ''Admin'' then Admin
      else if role_name = Some ''Edit & View'' then Edit
      else ViewOnly)"

definition spec_can_edit :: "capability \<Rightarrow> bool" where
  "spec_can_edit c = (c = Edit \<or> c = Admin)"

definition spec_can_administer :: "capability \<Rightarrow> bool" where
  "spec_can_administer c = (c = Admin)"

definition spec_operations :: "capability \<Rightarrow> operation set" where
  "spec_operations c =
     (case c of
        ViewOnly \<Rightarrow> {ViewMatrix}
      | Edit \<Rightarrow> {ViewMatrix, EditPermission}
      | Admin \<Rightarrow> {ViewMatrix, EditPermission, Administer})"

section \<open>Component state\<close>

text \<open>
  The state of the rendered component tree: the container's \<^verbatim>\<open>useState\<close> cells, of
  which the view receives the lists and the role name unchanged as props, and the
  view's own two filter cells. The single-component revision (part_000) holds the
  lists, \<^verbatim>\<open>loading\<close> and the filter cells in one component and has neither
  \<^verbatim>\<open>userRole\<close> nor \<^verbatim>\<open>activeTab\<close>.
\<close>

record app =
  roles :: "role list"
  actions :: "action list"
  permissions :: "permission list"
  profiles :: "profile list"
  loading :: bool
  userRole :: string
  activeTab :: string
  selectedCategory :: string
  searchTerm :: string

section \<open>CSV export\<close>

text \<open>
  A cell of \<^verbatim>\<open>csvData\<close> is a JavaScript string or number. The template
  \<^verbatim>\<open>`"${field}"`\<close> prints a string as it is and an integer in decimal.
\<close>

datatype csv_field = Str string | Num int

definition digit :: "nat \<Rightarrow> char" where
  "digit d = char_of (48 + d)"

function string_of_nat :: "nat \<Rightarrow> string" where
  "string_of_nat n =
     (if n < 10 then [digit n] else string_of_nat (n div 10) @ [digit (n mod 10)])"
  by pat_completeness auto
termination
  by (relation "measure (\<lambda>n. n)") auto

definition string_of_int :: "int \<Rightarrow> string" where
  "string_of_int i = (if i < 0 then CHR ''-'' # string_of_nat (nat (- i)) else string_of_nat (nat i))"

definition render :: "csv_field \<Rightarrow> string" where
  "render f = (case f of Str s \<Rightarrow> s | Num n \<Rightarrow> string_of_int n)"

definition quote :: "csv_field \<Rightarrow> string" where
  "quote f = [CHR 0x22] @ render f @ [CHR 0x22]"

fun join :: "string \<Rightarrow> string list \<Rightarrow> string" where
  "join sep [] = []"
| "join sep [x] = x"
| "join sep (x # y # ys) = x @ sep @ join sep (y # ys)"

definition status_string :: "status \<Rightarrow> string" where
  "status_string s =
     (case s of Granted \<Rightarrow> ''granted'' | Denied \<Rightarrow> ''denied'' | Conditional \<Rightarrow> ''conditional'')"

text \<open>
  The three \<^verbatim>\<open>||\<close> of a data row. \<^verbatim>\<open>permission?.limit_value || ''\<close> takes the empty
  string for every falsy left operand: \<^verbatim>\<open>undefined\<close>, \<^verbatim>\<open>null\<close> and the number 0.
  \<^verbatim>\<open>permission?.conditions || ''\<close> takes it for \<^verbatim>\<open>undefined\<close>, \<^verbatim>\<open>null\<close> and the
  empty string.
\<close>

definition limit_field :: "permission option \<Rightarrow> csv_field" where
  "limit_field permission =
     (case limit_of permission of
        None \<Rightarrow> Str []
      | Some n \<Rightarrow> (if n = 0 then Str [] else Num n))"

definition conditions_field :: "permission option \<Rightarrow> csv_field" where
  "conditions_field permission =
     (case conditions_of permission of None \<Rightarrow> Str [] | Some c \<Rightarrow> Str c)"

definition csvHeader :: "csv_field list" where
  "csvHeader = [Str ''Role'', Str ''Action'', Str ''Status'', Str ''Limit'',
                Str ''Conditions'', Str ''Category'']"

definition csvRow :: "app \<Rightarrow> role \<Rightarrow> action \<Rightarrow> csv_field list" where
  "csvRow st role action =
     (let permission = getPermission (permissions st) (r_id role) (a_id action)
      in [Str (r_name role),
          Str (a_name action),
          Str (status_string (currentStatus permission)),
          limit_field permission,
          conditions_field permission,
          Str (a_category action)])"

text \<open>\<^verbatim>\<open>csvData\<close>: the header, then \<^verbatim>\<open>roles.forEach\<close> around \<^verbatim>\<open>actions.forEach\<close>.\<close>

definition csvData :: "app \<Rightarrow> csv_field list list" where
  "csvData st =
     csvHeader # concat (map (\<lambda>role. map (\<lambda>action. csvRow st role action) (actions st)) (roles st))"

definition csvContent :: "app \<Rightarrow> string" where
  "csvContent st = join [CHR 0x0A] (map (\<lambda>row. join '','' (map quote row)) (csvData st))"

text \<open>
  The data row in the words of the specification, for comparison with the code: role
  name, action name, status or "denied", limit_value or empty, conditions or empty,
  category. The Limit cell is the row's limit_value when it has one and empty when it
  has none.
\<close>

definition spec_limit_field :: "permission option \<Rightarrow> csv_field" where
  "spec_limit_field permission =
     (case limit_of permission of None \<Rightarrow> Str [] | Some n \<Rightarrow> Num n)"

definition spec_csvRow :: "app \<Rightarrow> role \<Rightarrow> action \<Rightarrow> csv_field list" where
  "spec_csvRow st role action =
     (let permission = getPermission (permissions st) (r_id role) (a_id action)
      in [Str (r_name role),
          Str (a_name action),
          Str (case permission of None \<Rightarrow> ''denied'' | Some p \<Rightarrow> status_string (status p)),
          spec_limit_field permission,
          Str (case conditions_of permission of None \<Rightarrow> [] | Some c \<Rightarrow> c),
          Str (a_category action)])"

section \<open>The cell below its badge\<close>

text \<open>
  \<^verbatim>\<open>{permission?.limit_value && (<div>Limit: {permission.limit_value}</div>)}\<close> and the
  same for \<^verbatim>\<open>conditions\<close>: \<^verbatim>\<open>&&\<close> gives its left operand when that is falsy, and of
  the falsy values the renderer prints nothing for \<^verbatim>\<open>undefined\<close>, \<^verbatim>\<open>null\<close> and the empty
  string, but prints the number 0 as the text "0".
\<close>

definition limit_line :: "permission option \<Rightarrow> string option" where
  "limit_line permission =
     (case limit_of permission of
        None \<Rightarrow> None
      | Some n \<Rightarrow> (if n = 0 then Some (string_of_int n) else Some (''Limit: '' @ string_of_int n)))"

definition conditions_line :: "permission option \<Rightarrow> string option" where
  "conditions_line permission =
     (case conditions_of permission of
        None \<Rightarrow> None
      | Some c \<Rightarrow> (if c = [] then None else Some c))"

section \<open>Matrix projection: the action filter\<close>

text \<open>
  \<^verbatim>\<open>String.prototype.includes\<close> as a scan for a position where the needle starts.
\<close>

fun starts_with :: "string \<Rightarrow> string \<Rightarrow> bool" where
  "starts_with s [] = True"
| "starts_with [] (c # t) = False"
| "starts_with (x # s) (c # t) = (x = c \<and> starts_with s t)"

fun includes_str :: "string \<Rightarrow> string \<Rightarrow> bool" where
  "includes_str [] t = (t = [])"
| "includes_str (x # s) t = (starts_with (x # s) t \<or> includes_str s t)"

text \<open>
  \<^verbatim>\<open>toLowerCase\<close> on the ASCII letters; every other character is left as it is.
  The filter below takes the lower-casing function as a parameter, so that what is
  proved of it holds for every such function, the full Unicode one included.
\<close>

definition lower_char :: "char \<Rightarrow> char" where
  "lower_char c =
     (if 65 \<le> (of_char c :: nat) \<and> (of_char c :: nat) \<le> 90 then char_of ((of_char c :: nat) + 32) else c)"

definition toLowerCase :: "string \<Rightarrow> string" where
  "toLowerCase s = map lower_char s"

text \<open>
  \<^verbatim>\<open>filteredActions\<close>. \<^verbatim>\<open>action.description?.toLowerCase().includes(...)\<close> is
  \<^verbatim>\<open>undefined\<close>, hence falsy, for an action without description.
\<close>

definition matchesCategory :: "app \<Rightarrow> action \<Rightarrow> bool" where
  "matchesCategory st action =
     (selectedCategory st = ''all'' \<or> a_category action = selectedCategory st)"

definition matchesSearch :: "(string \<Rightarrow> string) \<Rightarrow> app \<Rightarrow> action \<Rightarrow> bool" where
  "matchesSearch lower st action =
     (includes_str (lower (a_name action)) (lower (searchTerm st)) \<or>
      (case a_description action of
         None \<Rightarrow> False
       | Some d \<Rightarrow> includes_str (lower d) (lower (searchTerm st))))"

definition filteredActions :: "(string \<Rightarrow> string) \<Rightarrow> app \<Rightarrow> action list" where
  "filteredActions lower st =
     filter (\<lambda>action. matchesCategory st action \<and> matchesSearch lower st action) (actions st)"

text \<open>
  The same filter in the single-component revision of the screen (part_000), which
  reads \<^verbatim>\<open>action.description.toLowerCase()\<close> without \<^verbatim>\<open>?.\<close>. \<^verbatim>\<open>||\<close> evaluates its
  right operand only when the name misses the term; there a missing description
  raises a TypeError, which leaves \<^verbatim>\<open>filter\<close> and ends the render.
\<close>

datatype js_error = TypeError

definition matchesSearch_single :: "(string \<Rightarrow> string) \<Rightarrow> app \<Rightarrow> action \<Rightarrow> js_error + bool" where
  "matchesSearch_single lower st action =
     (if includes_str (lower (a_name action)) (lower (searchTerm st)) then Inr True
      else case a_description action of
             None \<Rightarrow> Inl TypeError
           | Some d \<Rightarrow> Inr (includes_str (lower d) (lower (searchTerm st))))"

fun filter_raising :: "('a \<Rightarrow> js_error + bool) \<Rightarrow> 'a list \<Rightarrow> js_error + 'a list" where
  "filter_raising f [] = Inr []"
| "filter_raising f (x # xs) =
     (case f x of
        Inl err \<Rightarrow> Inl err
      | Inr keep \<Rightarrow>
          (case filter_raising f xs of
             Inl err \<Rightarrow> Inl err
           | Inr ys \<Rightarrow> Inr (if keep then x # ys else ys)))"

definition filteredActions_single :: "(string \<Rightarrow> string) \<Rightarrow> app \<Rightarrow> js_error + action list" where
  "filteredActions_single lower st =
     filter_raising
       (\<lambda>action. case matchesSearch_single lower st action of
                   Inl err \<Rightarrow> Inl err
                 | Inr found \<Rightarrow> Inr (matchesCategory st action \<and> found))
       (actions st)"

text \<open>
  The filter in the words of the specification: the needle occurs somewhere in the
  text after both are lower-cased.
\<close>

definition contains_ci :: "(string \<Rightarrow> string) \<Rightarrow> string \<Rightarrow> string \<Rightarrow> bool" where
  "contains_ci lower hay needle = (\<exists>before after. lower hay = before @ lower needle @ after)"

section \<open>Entity store\<close>

text \<open>
  The four tables behind the query interface. Of the schema, the model keeps what
  decides whether a write to \<^verbatim>\<open>permissions\<close> is accepted: the primary key \<^verbatim>\<open>id\<close>, the
  two foreign keys and \<^verbatim>\<open>UNIQUE(role_id, action_id)\<close>; and the column defaults of an
  insert that names only \<^verbatim>\<open>role_id\<close>, \<^verbatim>\<open>action_id\<close> and \<^verbatim>\<open>status\<close>.
\<close>

record store =
  db_roles :: "role list"
  db_actions :: "action list"
  db_permissions :: "permission list"
  db_profiles :: "profile list"

datatype store_error = ConstraintViolation | Unavailable

text \<open>
  What the surroundings decide in one call of \<^verbatim>\<open>updatePermission\<close>: whether the write
  and the reload get through to the tables at all (connectivity, row-level policy), the
  answer of \<^verbatim>\<open>get_user_role\<close>, and the identifier \<^verbatim>\<open>gen_random_uuid()\<close> draws for a
  new row.
\<close>

record env =
  write_fault :: "store_error option"
  load_fault :: "store_error option"
  rpc_user_role :: "string option"
  new_id :: string

text \<open>\<^verbatim>\<open>.from('permissions').update({ status }).eq('id', id)\<close>: every row with that
  identifier gets the new status, and nothing else of it changes.\<close>

definition set_status :: "string \<Rightarrow> status \<Rightarrow> permission \<Rightarrow> permission" where
  "set_status pid s p = (if p_id p = pid then p\<lparr>status := s\<rparr> else p)"

definition store_update :: "store_error option \<Rightarrow> store \<Rightarrow> string \<Rightarrow> status \<Rightarrow> store_error + store" where
  "store_update fault db pid s =
     (case fault of
        Some e \<Rightarrow> Inl e
      | None \<Rightarrow> Inr (db\<lparr>db_permissions := map (set_status pid s) (db_permissions db)\<rparr>))"

text \<open>\<^verbatim>\<open>.from('permissions').insert({ role_id, action_id, status })\<close>: the new row
  takes the drawn identifier and the defaults NULL for \<^verbatim>\<open>limit_value\<close> and
  \<^verbatim>\<open>conditions\<close>; the primary key, the two foreign keys and the uniqueness constraint
  can each reject it.\<close>

definition new_row :: "string \<Rightarrow> string \<Rightarrow> string \<Rightarrow> status \<Rightarrow> permission" where
  "new_row nid roleId actionId s =
     \<lparr>p_id = nid, role_id = roleId, action_id = actionId, status = s,
      limit_value = None, conditions = None\<rparr>"

definition store_insert ::
  "store_error option \<Rightarrow> store \<Rightarrow> string \<Rightarrow> string \<Rightarrow> string \<Rightarrow> status \<Rightarrow> store_error + store" where
  "store_insert fault db nid roleId actionId s =
     (case fault of
        Some e \<Rightarrow> Inl e
      | None \<Rightarrow>
          if nid \<in> set (map p_id (db_permissions db)) then Inl ConstraintViolation
          else if roleId \<notin> set (map r_id (db_roles db)) then Inl ConstraintViolation
          else if actionId \<notin> set (map a_id (db_actions db)) then Inl ConstraintViolation
          else if (roleId, actionId) \<in> set (map pair_of (db_permissions db)) then Inl ConstraintViolation
          else Inr (db\<lparr>db_permissions := db_permissions db @ [new_row nid roleId actionId s]\<rparr>))"

section \<open>Permission mutator\<close>

datatype toast = Success string | Error string

text \<open>
  \<^verbatim>\<open>loadData\<close>: the four selects and the remote call are awaited together; an error of
  any select is thrown before the first \<^verbatim>\<open>set...\<close>, caught, and shown as a toast;
  \<^verbatim>\<open>finally\<close> clears \<^verbatim>\<open>loading\<close>. While \<^verbatim>\<open>loading\<close> is set the container renders the
  spinner in place of the view, so the view is mounted anew afterwards and its two
  filter cells start again at \<^verbatim>\<open>'all'\<close> and \<^verbatim>\<open>''\<close>, whether the selects succeed or not.
  The rows are taken in the order of the tables.
\<close>

definition loadData :: "env \<Rightarrow> store \<Rightarrow> app \<Rightarrow> app \<times> toast list" where
  "loadData e db st =
     (case load_fault e of
        Some err \<Rightarrow>
          (st\<lparr>loading := False, selectedCategory := ''all'', searchTerm := []\<rparr>,
           [Error ''Failed to load authorization data.''])
      | None \<Rightarrow>
          (st\<lparr>roles := db_roles db, actions := db_actions db,
              permissions := db_permissions db, profiles := db_profiles db,
              userRole := userRole_of (rpc_user_role e), loading := False,
              selectedCategory := ''all'', searchTerm := []\<rparr>, []))"

text \<open>
  \<^verbatim>\<open>loadData\<close> of the single-component revision (part_000): no remote call for the
  role name, and the filter cells belong to the component itself, which stays mounted,
  so they keep their values.
\<close>

definition loadData_single :: "env \<Rightarrow> store \<Rightarrow> app \<Rightarrow> app \<times> toast list" where
  "loadData_single e db st =
     (case load_fault e of
        Some err \<Rightarrow> (st\<lparr>loading := False\<rparr>, [Error ''Failed to load authorization data.''])
      | None \<Rightarrow>
          (st\<lparr>roles := db_roles db, actions := db_actions db,
              permissions := db_permissions db, profiles := db_profiles db,
              loading := False\<rparr>, []))"

text \<open>
  \<^verbatim>\<open>updatePermission\<close>. The write inside its \<^verbatim>\<open>try\<close>: look the pair up in the local
  list, then update that row's status by identifier, or insert a row.
\<close>

definition write_permission ::
  "env \<Rightarrow> store \<Rightarrow> app \<Rightarrow> string \<Rightarrow> string \<Rightarrow> status \<Rightarrow> store_error + store" where
  "write_permission e db st roleId actionId s =
     (let existingPermission = getPermission (permissions st) roleId actionId
      in case existingPermission of
           Some p \<Rightarrow> store_update (write_fault e) db (p_id p) s
         | None \<Rightarrow> store_insert (write_fault e) db (new_id e) roleId actionId s)"

text \<open>
  A rejected write is thrown and caught, with a toast and no reload; an accepted one
  is followed by \<^verbatim>\<open>loadData\<close> and the success toast.
\<close>

definition updatePermission ::
  "env \<Rightarrow> store \<Rightarrow> app \<Rightarrow> string \<Rightarrow> string \<Rightarrow> status \<Rightarrow> store \<times> app \<times> toast list" where
  "updatePermission e db st roleId actionId s =
     (case write_permission e db st roleId actionId s of
        Inl err \<Rightarrow> (db, st, [Error ''Failed to update permission.''])
      | Inr db' \<Rightarrow>
          (db', fst (loadData e db' st),
           snd (loadData e db' st) @ [Success ''Permission updated successfully.'']))"

text \<open>
  A handler belongs to the render that created it: it reads the lists of that render,
  however old, while the setters it calls act on the component state of the moment.
  \<^verbatim>\<open>updatePermission\<close> above is the call made from the render of the current state;
  this is the call made from a render \<open>view\<close> while the state is \<open>st\<close>. Calls in
  flight together are taken one after the other, in the order the store serves their
  writes.
\<close>

definition updatePermission_from ::
  "app \<Rightarrow> env \<Rightarrow> store \<Rightarrow> app \<Rightarrow> string \<Rightarrow> string \<Rightarrow> status \<Rightarrow> store \<times> app \<times> toast list" where
  "updatePermission_from view e db st roleId actionId s =
     (case write_permission e db view roleId actionId s of
        Inl err \<Rightarrow> (db, st, [Error ''Failed to update permission.''])
      | Inr db' \<Rightarrow>
          (db', fst (loadData e db' st),
           snd (loadData e db' st) @ [Success ''Permission updated successfully.'']))"

text \<open>The same in the single-component revision, which reloads with its own \<^verbatim>\<open>loadData\<close>.\<close>

definition updatePermission_single_from ::
  "app \<Rightarrow> env \<Rightarrow> store \<Rightarrow> app \<Rightarrow> string \<Rightarrow> string \<Rightarrow> status \<Rightarrow> store \<times> app \<times> toast list" where
  "updatePermission_single_from view e db st roleId actionId s =
     (case write_permission e db view roleId actionId s of
        Inl err \<Rightarrow> (db, st, [Error ''Failed to update permission.''])
      | Inr db' \<Rightarrow>
          (db', fst (loadData_single e db' st),
           snd (loadData_single e db' st) @ [Success ''Permission updated successfully.'']))"

text \<open>
  The cells a render has: none while \<^verbatim>\<open>loading\<close> (the spinner is returned instead) and
  none while another tab than \<^verbatim>\<open>matrix\<close> is the active one, otherwise one for every
  role of \<^verbatim>\<open>roles\<close> in every row of \<^verbatim>\<open>filteredActions\<close>. The single-component
  revision has no tabs, and a filter that raises leaves it no cell at all.
\<close>

definition rendered :: "(string \<Rightarrow> string) \<Rightarrow> app \<Rightarrow> string \<Rightarrow> string \<Rightarrow> bool" where
  "rendered lower view roleId actionId =
     (\<not> loading view \<and> activeTab view = ''matrix'' \<and>
      roleId \<in> set (map r_id (roles view)) \<and>
      actionId \<in> set (map a_id (filteredActions lower view)))"

definition rendered_single :: "(string \<Rightarrow> string) \<Rightarrow> app \<Rightarrow> string \<Rightarrow> string \<Rightarrow> bool" where
  "rendered_single lower view roleId actionId =
     (\<not> loading view \<and> roleId \<in> set (map r_id (roles view)) \<and>
      (case filteredActions_single lower view of
         Inl err \<Rightarrow> False
       | Inr shown_actions \<Rightarrow> actionId \<in> set (map a_id shown_actions)))"

text \<open>
  A click on the cell of a pair in the render \<open>view\<close>, while the state is \<open>st\<close>. The
  view puts the button into a cell only under \<^verbatim>\<open>canEdit\<close>; where the render has no
  such button there is nothing to click. The handler takes the current status from
  the row the render looked up.
\<close>

definition clickCell ::
  "(string \<Rightarrow> string) \<Rightarrow> app \<Rightarrow> env \<Rightarrow> store \<Rightarrow> app \<Rightarrow> string \<Rightarrow> string \<Rightarrow> store \<times> app \<times> toast list" where
  "clickCell lower view e db st roleId actionId =
     (if canEdit (userRole view) \<and> rendered lower view roleId actionId
      then (let permission = getPermission (permissions view) roleId actionId
            in updatePermission_from view e db st roleId actionId
                 (nextStatus (currentStatus permission)))
      else (db, st, []))"

text \<open>The single-component revision has the button in every cell, for every user.\<close>

definition clickCell_single ::
  "(string \<Rightarrow> string) \<Rightarrow> app \<Rightarrow> env \<Rightarrow> store \<Rightarrow> app \<Rightarrow> string \<Rightarrow> string \<Rightarrow> store \<times> app \<times> toast list" where
  "clickCell_single lower view e db st roleId actionId =
     (if rendered_single lower view roleId actionId
      then (let permission = getPermission (permissions view) roleId actionId
            in updatePermission_single_from view e db st roleId actionId
                 (nextStatus (currentStatus permission)))
      else (db, st, []))"

text \<open>
  Clicks on one cell, one after the other, each made on the render of the state the
  call before it has left behind, each under its own surroundings.
\<close>

fun clicks ::
  "(string \<Rightarrow> string) \<Rightarrow> env list \<Rightarrow> store \<Rightarrow> app \<Rightarrow> string \<Rightarrow> string \<Rightarrow> store \<times> app" where
  "clicks lower [] db st roleId actionId = (db, st)"
| "clicks lower (e # es) db st roleId actionId =
     (case clickCell lower st e db st roleId actionId of
        (db', st', ts) \<Rightarrow> clicks lower es db' st' roleId actionId)"

fun clicks_single ::
  "(string \<Rightarrow> string) \<Rightarrow> env list \<Rightarrow> store \<Rightarrow> app \<Rightarrow> string \<Rightarrow> string \<Rightarrow> store \<times> app" where
  "clicks_single lower [] db st roleId actionId = (db, st)"
| "clicks_single lower (e # es) db st roleId actionId =
     (case clickCell_single lower st e db st roleId actionId of
        (db', st', ts) \<Rightarrow> clicks_single lower es db' st' roleId actionId)"

text \<open>
  Clicks in quick succession: the button is not disabled while a call is in flight,
  so further clicks can land on the one render \<open>view\<close> before any reload has replaced
  it.
\<close>

fun rapid_clicks ::
  "(string \<Rightarrow> string) \<Rightarrow> app \<Rightarrow> env list \<Rightarrow> store \<Rightarrow> app \<Rightarrow> string \<Rightarrow> string \<Rightarrow> store \<times> app" where
  "rapid_clicks lower view [] db st roleId actionId = (db, st)"
| "rapid_clicks lower view (e # es) db st roleId actionId =
     (case clickCell lower view e db st roleId actionId of
        (db', st', ts) \<Rightarrow> rapid_clicks lower view es db' st' roleId actionId)"

text \<open>The status a cell shows for a pair.\<close>

definition shown :: "app \<Rightarrow> string \<Rightarrow> string \<Rightarrow> status" where
  "shown st roleId actionId = currentStatus (getPermission (permissions st) roleId actionId)"

text \<open>The local lists are those of the store, as after every successful \<^verbatim>\<open>loadData\<close>.\<close>

definition in_sync :: "store \<Rightarrow> app \<Rightarrow> bool" where
  "in_sync db st =
     (roles st = db_roles db \<and> actions st = db_actions db \<and>
      permissions st = db_permissions db \<and> profiles st = db_profiles db)"


section \<open>A sample catalog\<close>

text \<open>
  The scenario of the specification: role "Manager", action "Approve Expense Reports",
  granted with limit 10000; beside it a second role and action without any row.
\<close>

definition manager :: role where
  "manager = \<lparr>r_id = ''r1'', r_name = ''Manager'', r_description = None,
              r_color = ''#D97706'', is_system_role = False\<rparr>"

definition employee :: role where
  "employee = \<lparr>r_id = ''r2'', r_name = ''Employee'', r_description = None,
               r_color = ''#059669'', is_system_role = False\<rparr>"

definition approve_expense :: action where
  "approve_expense = \<lparr>a_id = ''a1'', a_name = ''Approve Expense Reports'',
                      a_description = Some ''Authority to approve expense reports'',
                      a_category = ''Financial''\<rparr>"

definition process_payroll :: action where
  "process_payroll = \<lparr>a_id = ''a2'', a_name = ''Process Payroll'',
                      a_description = Some ''Access to payroll processing systems'',
                      a_category = ''Financial''\<rparr>"

definition manage_projects :: action where
  "manage_projects = \<lparr>a_id = ''a3'', a_name = ''Manage Projects'',
                      a_description = None, a_category = ''Project Management''\<rparr>"

definition manager_approve :: permission where
  "manager_approve = \<lparr>p_id = ''p1'', role_id = ''r1'', action_id = ''a1'', status = Granted,
                       limit_value = Some 10000, conditions = Some ''Own department''\<rparr>"

definition manager_approve_dup :: permission where
  "manager_approve_dup = \<lparr>p_id = ''p2'', role_id = ''r1'', action_id = ''a1'', status = Denied,
                           limit_value = None, conditions = None\<rparr>"

definition sample_store :: store where
  "sample_store = \<lparr>db_roles = [manager, employee],
                   db_actions = [approve_expense, process_payroll, manage_projects],
                   db_permissions = [manager_approve], db_profiles = []\<rparr>"

definition sample_app :: app where
  "sample_app = \<lparr>roles = [manager, employee],
                 actions = [approve_expense, process_payroll, manage_projects],
                 permissions = [manager_approve], profiles = [], loading = False,
                 userRole = ''Edit & View'', activeTab = ''matrix'',
                 selectedCategory = ''Financial'',
                 searchTerm = ''EXPENSE''\<rparr>"

text \<open>A conditional permission whose cap is zero.\<close>

definition zero_cap :: permission where
  "zero_cap = \<lparr>p_id = ''p3'', role_id = ''r2'', action_id = ''a2'', status = Conditional,
                limit_value = Some 0, conditions = Some ''Pre-approved only''\<rparr>"

definition zero_app :: app where
  "zero_app = sample_app\<lparr>permissions := [manager_approve, zero_cap]\<rparr>"

definition calm :: env where
  "calm = \<lparr>write_fault = None, load_fault = None,
           rpc_user_role = Some ''Edit & View'', new_id = ''p9''\<rparr>"

text \<open>Two successive calls on the pair (Employee, Process Payroll), which has no row.\<close>

definition after_first :: "store \<times> app \<times> toast list" where
  "after_first = updatePermission calm sample_store sample_app ''r2'' ''a2'' Granted"

definition after_second :: "store \<times> app \<times> toast list" where
  "after_second =
     updatePermission calm (fst after_first) (fst (snd after_first)) ''r2'' ''a2'' Conditional"

text \<open>The scenario call: (Manager, Approve Expense Reports) set to conditional.\<close>

definition after_conditional :: "store \<times> app \<times> toast list" where
  "after_conditional = updatePermission calm sample_store sample_app ''r1'' ''a1'' Conditional"

text \<open>An unreachable store, and a view that has missed the store's row.\<close>

definition offline :: env where
  "offline = calm\<lparr>write_fault := Some Unavailable\<rparr>"

definition stale_app :: app where
  "stale_app = sample_app\<lparr>permissions := []\<rparr>"

text \<open>
  A second set of surroundings, drawing another identifier; and three clicks on the
  cell (Employee, Approve Expense Reports), which the sample filter shows and which
  has no row: one after the other, and in quick succession on the first render.
\<close>

definition calm2 :: env where
  "calm2 = calm\<lparr>new_id := ''p10''\<rparr>"

definition three_clicks :: "store \<times> app" where
  "three_clicks = clicks toLowerCase [calm, calm2, calm2] sample_store sample_app ''r2'' ''a1''"

definition three_rapid_clicks :: "store \<times> app" where
  "three_rapid_clicks =
     rapid_clicks toLowerCase sample_app [calm, calm2, calm2] sample_store sample_app ''r2'' ''a1''"

text \<open>
  The sample catalog in the single-component revision, under a search term that every
  action name contains; and three clicks there on the cell (Employee, Process Payroll).
\<close>

definition single_app :: app where
  "single_app = sample_app\<lparr>searchTerm := ''a''\<rparr>"

definition three_clicks_single :: "store \<times> app" where
  "three_clicks_single =
     clicks_single toLowerCase [calm, calm2, calm2] sample_store single_app ''r2'' ''a2''"

section \<open>Resolver: helper facts\<close>

lemma getPermission_Nil: "getPermission [] r a = None"
  by (simp add: getPermission_def)

lemma getPermission_Cons:
  "getPermission (p # ps) r a = (if matches r a p then Some p else getPermission ps r a)"
  by (simp add: getPermission_def)

lemma getPermission_None_iff:
  "getPermission ps r a = None \<longleftrightarrow> (\<forall>p \<in> set ps. \<not> matches r a p)"
  by (induction ps) (simp_all add: getPermission_Nil getPermission_Cons)

lemma getPermission_SomeD:
  "getPermission ps r a = Some p \<Longrightarrow> p \<in> set ps \<and> matches r a p"
  by (induction ps) (auto simp: getPermission_Nil getPermission_Cons split: if_splits)

lemma getPermission_append:
  "getPermission (ps @ qs) r a =
     (case getPermission ps r a of None \<Rightarrow> getPermission qs r a | Some p \<Rightarrow> Some p)"
  by (induction ps) (simp_all add: getPermission_Nil getPermission_Cons)

lemma matches_pair_of: "matches r a p \<longleftrightarrow> pair_of p = (r, a)"
  by (auto simp: matches_def pair_of_def)

lemma getPermission_unique:
  "unique_pairs ps \<Longrightarrow> p \<in> set ps \<Longrightarrow> matches r a p \<Longrightarrow> getPermission ps r a = Some p"
proof (induction ps)
  case Nil
  then show ?case by simp
next
  case (Cons q qs)
  show ?case
  proof (cases "matches r a q")
    case True
    have "p = q"
    proof (rule ccontr)
      assume "p \<noteq> q"
      with Cons.prems(2) have "p \<in> set qs" by simp
      then have "pair_of p \<in> set (map pair_of qs)" by simp
      moreover have "pair_of p = pair_of q"
        using True Cons.prems(3) by (simp add: matches_pair_of)
      ultimately show False
        using Cons.prems(1) by (simp add: unique_pairs_def)
    qed
    with True show ?thesis by (simp add: getPermission_Cons)
  next
    case False
    with Cons.prems have "p \<in> set qs" "unique_pairs qs"
      by (auto simp: unique_pairs_def)
    with Cons.IH Cons.prems(3) False show ?thesis
      by (simp add: getPermission_Cons)
  qed
qed


lemma getPermission_first:
  "matches r a p \<Longrightarrow> \<forall>q \<in> set pre. \<not> matches r a q \<Longrightarrow>
   getPermission (pre @ p # post) r a = Some p"
proof -
  assume hit: "matches r a p" and miss: "\<forall>q \<in> set pre. \<not> matches r a q"
  from miss have "getPermission pre r a = None"
    by (simp add: getPermission_None_iff)
  with hit show ?thesis
    by (simp add: getPermission_append getPermission_Cons)
qed

lemma getPermission_Some_split:
  "getPermission ps r a = Some p \<Longrightarrow>
   \<exists>pre post. ps = pre @ p # post \<and> matches r a p \<and> (\<forall>q \<in> set pre. \<not> matches r a q)"
proof (induction ps)
  case Nil
  then show ?case by (simp add: getPermission_Nil)
next
  case (Cons x xs)
  show ?case
  proof (cases "matches r a x")
    case True
    with Cons.prems have "x = p" by (simp add: getPermission_Cons)
    with True have "x # xs = [] @ p # xs \<and> matches r a p \<and> (\<forall>q \<in> set []. \<not> matches r a q)"
      by simp
    then show ?thesis by blast
  next
    case False
    with Cons.prems have "getPermission xs r a = Some p" by (simp add: getPermission_Cons)
    from Cons.IH [OF this] obtain pre post where
      split: "xs = pre @ p # post" "matches r a p" "\<forall>q \<in> set pre. \<not> matches r a q"
      by blast
    with False have "x # xs = (x # pre) @ p # post \<and> matches r a p \<and>
        (\<forall>q \<in> set (x # pre). \<not> matches r a q)"
      by simp
    then show ?thesis by blast
  qed
qed

section \<open>The resolver\<close>

text \<open>
  Claim C1. For every permission list and every pair: when no row of the list matches
  the pair, the lookup finds nothing and the three reads give status denied, no limit
  and no conditions (and the badge reads "Denied"); when some row matches, the lookup
  returns a matching row of the list and the three reads are that row's status,
  limit_value and conditions unchanged; and on a list with at most one row per pair,
  this holds of every matching row.
\<close>

theorem resolve_denied_or_verbatim:
  "((\<forall>p \<in> set ps. \<not> matches r a p) \<longrightarrow>
       getPermission ps r a = None \<and>
       currentStatus (getPermission ps r a) = Denied \<and>
       limit_of (getPermission ps r a) = None \<and>
       conditions_of (getPermission ps r a) = None \<and>
       snd (getStatusBadge (getPermission ps r a)) = ''Denied'') \<and>
   ((\<exists>p \<in> set ps. matches r a p) \<longrightarrow>
       (\<exists>p \<in> set ps. matches r a p \<and>
          getPermission ps r a = Some p \<and>
          currentStatus (getPermission ps r a) = status p \<and>
          limit_of (getPermission ps r a) = limit_value p \<and>
          conditions_of (getPermission ps r a) = conditions p)) \<and>
   (unique_pairs ps \<longrightarrow>
       (\<forall>p \<in> set ps. matches r a p \<longrightarrow>
          getPermission ps r a = Some p \<and>
          currentStatus (getPermission ps r a) = status p \<and>
          limit_of (getPermission ps r a) = limit_value p \<and>
          conditions_of (getPermission ps r a) = conditions p))"
proof (intro conjI impI)
  assume none: "\<forall>p \<in> set ps. \<not> matches r a p"
  then have lookup: "getPermission ps r a = None"
    by (simp add: getPermission_None_iff)
  show "getPermission ps r a = None" by (rule lookup)
  show "currentStatus (getPermission ps r a) = Denied"
    by (simp add: lookup currentStatus_def)
  show "limit_of (getPermission ps r a) = None"
    by (simp add: lookup limit_of_def)
  show "conditions_of (getPermission ps r a) = None"
    by (simp add: lookup conditions_of_def)
  show "snd (getStatusBadge (getPermission ps r a)) = ''Denied''"
    by (simp add: lookup getStatusBadge_def)
next
  assume "\<exists>p \<in> set ps. matches r a p"
  then have "getPermission ps r a \<noteq> None"
    by (simp add: getPermission_None_iff)
  then obtain p where found: "getPermission ps r a = Some p" by blast
  from getPermission_SomeD [OF found] have "p \<in> set ps" "matches r a p" by simp_all
  moreover have "currentStatus (getPermission ps r a) = status p"
    "limit_of (getPermission ps r a) = limit_value p"
    "conditions_of (getPermission ps r a) = conditions p"
    by (simp_all add: found currentStatus_def limit_of_def conditions_of_def)
  ultimately show "\<exists>p \<in> set ps. matches r a p \<and>
          getPermission ps r a = Some p \<and>
          currentStatus (getPermission ps r a) = status p \<and>
          limit_of (getPermission ps r a) = limit_value p \<and>
          conditions_of (getPermission ps r a) = conditions p"
    using found by blast
next
  assume uniq: "unique_pairs ps"
  show "\<forall>p \<in> set ps. matches r a p \<longrightarrow>
          getPermission ps r a = Some p \<and>
          currentStatus (getPermission ps r a) = status p \<and>
          limit_of (getPermission ps r a) = limit_value p \<and>
          conditions_of (getPermission ps r a) = conditions p"
  proof (intro ballI impI)
    fix p assume "p \<in> set ps" "matches r a p"
    with uniq have found: "getPermission ps r a = Some p"
      by (rule getPermission_unique)
    then show "getPermission ps r a = Some p \<and>
          currentStatus (getPermission ps r a) = status p \<and>
          limit_of (getPermission ps r a) = limit_value p \<and>
          conditions_of (getPermission ps r a) = conditions p"
      by (simp add: currentStatus_def limit_of_def conditions_of_def)
  qed
qed

text \<open>
  The sample list at a pair without a row (Employee, Approve Expense Reports) and at the
  pair with its row (Manager, Approve Expense Reports).
\<close>

theorem resolve_denied_or_verbatim_witness:
  "\<not> matches ''r2'' ''a1'' manager_approve \<and>
   currentStatus (getPermission [manager_approve] ''r2'' ''a1'') = Denied \<and>
   limit_of (getPermission [manager_approve] ''r2'' ''a1'') = None \<and>
   conditions_of (getPermission [manager_approve] ''r2'' ''a1'') = None \<and>
   unique_pairs [manager_approve] \<and> manager_approve \<in> set [manager_approve] \<and>
   matches ''r1'' ''a1'' manager_approve \<and>
   currentStatus (getPermission [manager_approve] ''r1'' ''a1'') = Granted \<and>
   limit_of (getPermission [manager_approve] ''r1'' ''a1'') = Some 10000 \<and>
   conditions_of (getPermission [manager_approve] ''r1'' ''a1'') = Some ''Own department''"
proof -
  have absent: "\<forall>p \<in> set [manager_approve]. \<not> matches ''r2'' ''a1'' p"
    by (simp add: matches_def manager_approve_def)
  have uniq: "unique_pairs [manager_approve]"
    by (simp add: unique_pairs_def)
  have row: "manager_approve \<in> set [manager_approve]" "matches ''r1'' ''a1'' manager_approve"
    by (simp_all add: matches_def manager_approve_def)
  have fields: "status manager_approve = Granted" "limit_value manager_approve = Some 10000"
    "conditions manager_approve = Some ''Own department''"
    by (simp_all add: manager_approve_def)
  from resolve_denied_or_verbatim [of "[manager_approve]" "''r2''" "''a1''"] absent
  have no_row: "currentStatus (getPermission [manager_approve] ''r2'' ''a1'') = Denied \<and>
      limit_of (getPermission [manager_approve] ''r2'' ''a1'') = None \<and>
      conditions_of (getPermission [manager_approve] ''r2'' ''a1'') = None"
    by blast
  from resolve_denied_or_verbatim [of "[manager_approve]" "''r1''" "''a1''"] uniq row
  have "currentStatus (getPermission [manager_approve] ''r1'' ''a1'') = status manager_approve \<and>
      limit_of (getPermission [manager_approve] ''r1'' ''a1'') = limit_value manager_approve \<and>
      conditions_of (getPermission [manager_approve] ''r1'' ''a1'') = conditions manager_approve"
    by blast
  with fields absent uniq row no_row show ?thesis by simp
qed

text \<open>
  Claim C10. The lookup is first-match: it returns nothing exactly when no row
  matches, and it returns a row \<open>p\<close> exactly when \<open>p\<close> matches and stands in the list
  behind rows that do not match, whatever follows it. So of several rows for one pair
  only the earliest is ever returned; being a function of the list and the pair, the
  lookup gives the same row on every run.
\<close>

theorem getPermission_first_match:
  "(getPermission ps r a = None \<longleftrightarrow> (\<forall>q \<in> set ps. \<not> matches r a q)) \<and>
   (\<forall>p. getPermission ps r a = Some p \<longleftrightarrow>
        (\<exists>pre post. ps = pre @ p # post \<and> matches r a p \<and> (\<forall>q \<in> set pre. \<not> matches r a q)))"
proof (intro conjI allI iffI)
  assume "getPermission ps r a = None"
  then show "\<forall>q \<in> set ps. \<not> matches r a q" by (simp add: getPermission_None_iff)
next
  assume "\<forall>q \<in> set ps. \<not> matches r a q"
  then show "getPermission ps r a = None" by (simp add: getPermission_None_iff)
next
  fix p assume "getPermission ps r a = Some p"
  then show "\<exists>pre post. ps = pre @ p # post \<and> matches r a p \<and> (\<forall>q \<in> set pre. \<not> matches r a q)"
    by (rule getPermission_Some_split)
next
  fix p
  assume "\<exists>pre post. ps = pre @ p # post \<and> matches r a p \<and> (\<forall>q \<in> set pre. \<not> matches r a q)"
  then obtain pre post where "ps = pre @ p # post" "matches r a p" "\<forall>q \<in> set pre. \<not> matches r a q"
    by blast
  then show "getPermission ps r a = Some p"
    by (simp add: getPermission_first)
qed

text \<open>
  A list with two rows for the pair (Manager, Approve Expense Reports), the granted one
  first: the invariant is broken and the lookup returns the granted row.
\<close>

theorem getPermission_first_match_witness:
  "\<not> unique_pairs [manager_approve, manager_approve_dup] \<and>
   matches ''r1'' ''a1'' manager_approve \<and> matches ''r1'' ''a1'' manager_approve_dup \<and>
   getPermission [manager_approve, manager_approve_dup] ''r1'' ''a1'' = Some manager_approve \<and>
   getPermission [manager_approve, manager_approve_dup] ''r1'' ''a1'' \<noteq> Some manager_approve_dup"
proof -
  have m: "matches ''r1'' ''a1'' manager_approve" "matches ''r1'' ''a1'' manager_approve_dup"
    by (simp_all add: matches_def manager_approve_def manager_approve_dup_def)
  have broken: "\<not> unique_pairs [manager_approve, manager_approve_dup]"
    by (simp add: unique_pairs_def pair_of_def manager_approve_def manager_approve_dup_def)
  have diff: "manager_approve \<noteq> manager_approve_dup"
    by (simp add: manager_approve_def manager_approve_dup_def)
  have "[manager_approve, manager_approve_dup] = [] @ manager_approve # [manager_approve_dup] \<and>
      matches ''r1'' ''a1'' manager_approve \<and> (\<forall>q \<in> set []. \<not> matches ''r1'' ''a1'' q)"
    using m by simp
  then have "\<exists>pre post. [manager_approve, manager_approve_dup] = pre @ manager_approve # post \<and>
      matches ''r1'' ''a1'' manager_approve \<and> (\<forall>q \<in> set pre. \<not> matches ''r1'' ''a1'' q)"
    by blast
  with getPermission_first_match [of "[manager_approve, manager_approve_dup]" "''r1''" "''a1''"]
  have "getPermission [manager_approve, manager_approve_dup] ''r1'' ''a1'' = Some manager_approve"
    by blast
  with m broken diff show ?thesis by simp
qed

section \<open>The access policy gate\<close>

lemma userRole_of_eq_iff:
  "n \<noteq> [] \<Longrightarrow> userRole_of d = n \<longleftrightarrow> d = Some n"
  by (cases d) (auto simp: userRole_of_def)

lemma permitted_Admin: "permitted ''Admin'' = {ViewMatrix, EditPermission, Administer}"
  by (auto simp: permitted_def canEdit_def isAdmin_def)

lemma permitted_Edit: "permitted ''Edit & View'' = {ViewMatrix, EditPermission}"
  by (auto simp: permitted_def canEdit_def isAdmin_def)

lemma permitted_other:
  "n \<noteq> ''Admin'' \<Longrightarrow> n \<noteq> ''Edit & View'' \<Longrightarrow> permitted n = {ViewMatrix}"
  by (simp add: permitted_def canEdit_def isAdmin_def)

lemma gate_refines_capability:
  "isAdmin (userRole_of d) = spec_can_administer (capability_of d) \<and>
   canEdit (userRole_of d) = spec_can_edit (capability_of d) \<and>
   permitted (userRole_of d) = spec_operations (capability_of d)"
proof -
  consider (admin) "d = Some ''Admin''" | (edit) "d = Some ''Edit & View''"
    | (other) "d \<noteq> Some ''Admin''" "d \<noteq> Some ''Edit & View''"
    by blast
  then show ?thesis
  proof cases
    case admin
    then show ?thesis
      by (simp add: userRole_of_def isAdmin_def canEdit_def capability_of_def
          spec_can_administer_def spec_can_edit_def spec_operations_def permitted_Admin)
  next
    case edit
    then have "userRole_of d = ''Edit & View''" by (simp add: userRole_of_def)
    then show ?thesis using edit
      by (simp add: isAdmin_def canEdit_def capability_of_def
          spec_can_administer_def spec_can_edit_def spec_operations_def permitted_Edit)
  next
    case other
    then have "userRole_of d \<noteq> ''Admin''" "userRole_of d \<noteq> ''Edit & View''"
      by (simp_all add: userRole_of_eq_iff)
    with other show ?thesis
      by (simp add: isAdmin_def canEdit_def capability_of_def
          spec_can_administer_def spec_can_edit_def spec_operations_def permitted_other)
  qed
qed

lemma store_gate_agrees:
  "policy_using (is_admin d) = isAdmin (userRole_of d) \<and>
   policy_using (can_edit d) = canEdit (userRole_of d)"
  by (cases d) (auto simp: policy_using_def is_admin_def can_edit_def isAdmin_def canEdit_def
      userRole_of_def)

text \<open>
  Claim C3. The gate is fail-closed and exact-match. For the role name \<open>d\<close> the store
  returns (or none): the code's two flags and the controls it offers are those of the
  specification's \<open>capability_of\<close>, and the store's own policy functions agree with the
  flags. "Admin" is admin and may view, edit and administer; "Edit & View" is edit and
  may view and edit; no role at all is view-only; every role name \<open>n\<close> other than
  these two strings may only view, with both flags false. The permitted operations are
  nested: those of any name lie within those of "Admin", and those of any name other
  than "Admin" within those of "Edit & View".
\<close>

theorem gate_fail_closed:
  "isAdmin (userRole_of d) = spec_can_administer (capability_of d) \<and>
   canEdit (userRole_of d) = spec_can_edit (capability_of d) \<and>
   permitted (userRole_of d) = spec_operations (capability_of d) \<and>
   policy_using (is_admin d) = isAdmin (userRole_of d) \<and>
   policy_using (can_edit d) = canEdit (userRole_of d) \<and>
   capability_of (Some ''Admin'') = Admin \<and>
   capability_of (Some ''Edit & View'') = Edit \<and>
   capability_of None = ViewOnly \<and>
   permitted ''Admin'' = {ViewMatrix, EditPermission, Administer} \<and>
   permitted ''Edit & View'' = {ViewMatrix, EditPermission} \<and>
   permitted (userRole_of None) = {ViewMatrix} \<and>
   (n \<noteq> ''Admin'' \<and> n \<noteq> ''Edit & View'' \<longrightarrow>
      permitted n = {ViewMatrix} \<and> \<not> canEdit n \<and> \<not> isAdmin n \<and>
      capability_of (Some n) = ViewOnly) \<and>
   permitted n \<subseteq> permitted ''Admin'' \<and>
   (n \<noteq> ''Admin'' \<longrightarrow> permitted n \<subseteq> permitted ''Edit & View'') \<and>
   permitted ''Edit & View'' \<subseteq> permitted ''Admin''"
proof -
  have other: "n \<noteq> ''Admin'' \<and> n \<noteq> ''Edit & View'' \<longrightarrow>
      permitted n = {ViewMatrix} \<and> \<not> canEdit n \<and> \<not> isAdmin n \<and>
      capability_of (Some n) = ViewOnly"
    by (simp add: permitted_other canEdit_def isAdmin_def capability_of_def)
  have caps: "capability_of (Some ''Admin'') = Admin"
    "capability_of (Some ''Edit & View'') = Edit" "capability_of None = ViewOnly"
    by (simp_all add: capability_of_def)
  have none: "permitted (userRole_of None) = {ViewMatrix}"
    by (simp add: userRole_of_def permitted_other)
  have "permitted n \<subseteq> {ViewMatrix, EditPermission, Administer}"
    by (auto simp: permitted_def split: if_splits)
  then have below_admin: "permitted n \<subseteq> permitted ''Admin''"
    by (simp only: permitted_Admin)
  have "n \<noteq> ''Admin'' \<longrightarrow> permitted n \<subseteq> {ViewMatrix, EditPermission}"
    by (auto simp: permitted_def isAdmin_def split: if_splits)
  then have below_edit: "n \<noteq> ''Admin'' \<longrightarrow> permitted n \<subseteq> permitted ''Edit & View''"
    by (simp only: permitted_Edit)
  have edit_admin: "permitted ''Edit & View'' \<subseteq> permitted ''Admin''"
    by (simp add: permitted_Admin permitted_Edit)
  from gate_refines_capability [of d] store_gate_agrees [of d] other caps none
    below_admin below_edit edit_admin permitted_Admin permitted_Edit
  show ?thesis by blast
qed

text \<open>
  The lower-case name "admin" is not the privileged string: it may only view.
\<close>

theorem gate_fail_closed_witness:
  "''admin'' \<noteq> ''Admin'' \<and> ''admin'' \<noteq> ''Edit & View'' \<and>
   permitted ''admin'' = {ViewMatrix} \<and> \<not> canEdit ''admin'' \<and> \<not> isAdmin ''admin'' \<and>
   permitted ''admin'' \<subseteq> permitted ''Edit & View''"
proof -
  have ne: "''admin'' \<noteq> ''Admin''" "''admin'' \<noteq> ''Edit & View''" by simp_all
  with gate_fail_closed [of "Some ''admin''" "''admin''"]
  have "permitted ''admin'' = {ViewMatrix} \<and> \<not> canEdit ''admin'' \<and> \<not> isAdmin ''admin'' \<and>
      permitted ''admin'' \<subseteq> permitted ''Edit & View''"
    by blast
  with ne show ?thesis by blast
qed

section \<open>The CSV export\<close>

lemma length_grid:
  "length (concat (map (\<lambda>x. map (g x) ys) xs)) = length xs * length ys"
  by (induction xs) simp_all

lemma nth_grid:
  "i < length xs \<Longrightarrow> j < length ys \<Longrightarrow>
   concat (map (\<lambda>x. map (g x) ys) xs) ! (i * length ys + j) = g (xs ! i) (ys ! j)"
proof (induction xs arbitrary: i)
  case Nil
  then show ?case by simp
next
  case (Cons x xs)
  show ?case
  proof (cases i)
    case 0
    with Cons.prems show ?thesis by (simp add: nth_append)
  next
    case (Suc k)
    with Cons.prems have "k < length xs" by simp
    from Cons.IH [OF this Cons.prems(2)]
    have "concat (map (\<lambda>x. map (g x) ys) xs) ! (k * length ys + j) = g (xs ! k) (ys ! j)" .
    with Suc show ?thesis by (simp add: nth_append add.assoc)
  qed
qed

lemma csvRow_filters:
  "csvRow (st\<lparr>selectedCategory := c, searchTerm := t\<rparr>) role action = csvRow st role action"
  by (simp add: csvRow_def)

lemma csvData_filters:
  "csvData (st\<lparr>selectedCategory := c, searchTerm := t\<rparr>) = csvData st"
  by (simp add: csvData_def csvRow_filters)

text \<open>
  Claim C6. The export walks the whole catalog: below the header, \<open>csvData\<close> has
  exactly |roles| times |actions| rows, the row at position \<open>i * |actions| + j\<close> being
  the one of the \<open>i\<close>-th role and the \<open>j\<close>-th action; and the data do not depend on the
  category and search filters, whatever they are set to.
\<close>

theorem csvData_full_catalog:
  "length (tl (csvData st)) = length (roles st) * length (actions st) \<and>
   hd (csvData st) = csvHeader \<and>
   csvData (st\<lparr>selectedCategory := c, searchTerm := t\<rparr>) = csvData st \<and>
   length (tl (csvData (st\<lparr>selectedCategory := c, searchTerm := t\<rparr>))) =
     length (roles st) * length (actions st) \<and>
   (\<forall>i j. i < length (roles st) \<and> j < length (actions st) \<longrightarrow>
      tl (csvData st) ! (i * length (actions st) + j) = csvRow st (roles st ! i) (actions st ! j))"
proof -
  have count: "length (tl (csvData st)) = length (roles st) * length (actions st)"
    by (simp add: csvData_def length_grid)
  have "\<forall>i j. i < length (roles st) \<and> j < length (actions st) \<longrightarrow>
      tl (csvData st) ! (i * length (actions st) + j) = csvRow st (roles st ! i) (actions st ! j)"
    by (simp add: csvData_def nth_grid)
  with count show ?thesis
    by (simp add: csvData_filters) (simp add: csvData_def)
qed

text \<open>
  The sample catalog with a filter that leaves one action of three on screen: the
  export still has 2 * 3 rows, the last one for (Employee, Manage Projects).
\<close>

theorem csvData_full_catalog_witness:
  "(1::nat) < length (roles sample_app) \<and> (2::nat) < length (actions sample_app) \<and>
   length (filteredActions toLowerCase sample_app) = 1 \<and>
   length (tl (csvData sample_app)) = 6 \<and>
   tl (csvData sample_app) ! 5 = csvRow sample_app employee manage_projects"
proof -
  have sizes: "length (roles sample_app) = 2" "length (actions sample_app) = 3"
    by (simp_all add: sample_app_def)
  have cells: "roles sample_app ! 1 = employee" "actions sample_app ! 2 = manage_projects"
    by (simp_all add: sample_app_def)
  have filtered: "length (filteredActions toLowerCase sample_app) = 1"
    by code_simp
  from csvData_full_catalog [of sample_app]
  have count: "length (tl (csvData sample_app)) = length (roles sample_app) * length (actions sample_app)"
    and idx: "\<forall>i j. i < length (roles sample_app) \<and> j < length (actions sample_app) \<longrightarrow>
      tl (csvData sample_app) ! (i * length (actions sample_app) + j) =
      csvRow sample_app (roles sample_app ! i) (actions sample_app ! j)"
    by blast+
  from idx [rule_format, of 1 2] sizes cells
  have "tl (csvData sample_app) ! 5 = csvRow sample_app employee manage_projects"
    by simp
  with count sizes filtered show ?thesis by simp
qed

text \<open>Quoting, the header line and the shape of a data row.\<close>

lemma quote_wrapped: "\<exists>body. quote f = CHR 0x22 # body @ [CHR 0x22]"
  by (simp add: quote_def)

lemma csvRow_length: "length (csvRow st role action) = 6"
  by (simp add: csvRow_def Let_def)

lemma limit_field_spec:
  "limit_of permission \<noteq> Some 0 \<Longrightarrow> limit_field permission = spec_limit_field permission"
  by (simp add: limit_field_def spec_limit_field_def split: option.splits)

lemma csvRow_spec:
  "limit_of (getPermission (permissions st) (r_id role) (a_id action)) \<noteq> Some 0 \<Longrightarrow>
   csvRow st role action = spec_csvRow st role action"
  by (simp add: csvRow_def spec_csvRow_def Let_def limit_field_spec conditions_field_def
      currentStatus_def status_string_def split: option.splits)

lemma join_Cons: "\<exists>rest. join sep (x # xs) = x @ rest"
  by (cases xs) simp_all

lemma csvContent_header:
  "\<exists>rest. csvContent st = join '','' (map quote csvHeader) @ rest"
  by (simp add: csvContent_def csvData_def join_Cons)

lemma header_line: \<open>join '','' (map quote csvHeader) = ''"Role","Action","Status","Limit","Conditions","Category"''\<close>
  by (simp add: csvHeader_def quote_def render_def)

text \<open>Numbers are printed in decimal.\<close>

lemma digit_values:
  "digit 0 = CHR ''0''" "digit 1 = CHR ''1''" "digit 2 = CHR ''2''" "digit 3 = CHR ''3''"
  "digit 4 = CHR ''4''" "digit 5 = CHR ''5''" "digit 6 = CHR ''6''" "digit 7 = CHR ''7''"
  "digit 8 = CHR ''8''" "digit 9 = CHR ''9''" "digit (Suc 0) = CHR ''1''"
  by code_simp+

lemma string_of_nat_small: "n < 10 \<Longrightarrow> string_of_nat n = [digit n]"
  by (subst string_of_nat.simps) simp

lemma string_of_nat_large:
  "\<not> n < 10 \<Longrightarrow> string_of_nat n = string_of_nat (n div 10) @ [digit (n mod 10)]"
  by (subst string_of_nat.simps) simp

lemma string_of_int_examples:
  "string_of_int 10000 = ''10000''" "string_of_int (- 42) = ''-42''" "string_of_int 0 = ''0''"
  by (simp_all add: string_of_int_def string_of_nat_small string_of_nat_large digit_values)

text \<open>
  On screen the same zero cap is not hidden: the cell prints it, though without its
  label.
\<close>

lemma limit_line_zero: "limit_line (Some zero_cap) = Some ''0''"
  by (simp add: limit_line_def limit_of_def zero_cap_def string_of_int_examples)

lemma limit_line_sample: "limit_line (Some manager_approve) = Some ''Limit: 10000''"
  by (simp add: limit_line_def limit_of_def manager_approve_def string_of_int_examples)

text \<open>
  Claim C7. The export begins with the header Role, Action, Status, Limit, Conditions,
  Category, every cell is wrapped in double quotes, and a data row agrees with the
  specification's sextuple whenever the looked-up limit is not the number 0 (the lemmas
  above). At a row whose limit_value is 0 code and specification differ: the code's
  \<^verbatim>\<open>||\<close> reads 0 as missing and emits an empty Limit cell, where the row has a
  limit_value and the specification's sextuple carries it. Evaluated on the sample
  catalog with a conditional permission capped at 0 for (Employee, Process Payroll):
\<close>

theorem csvRow_drops_zero_limit:
  "getPermission (permissions zero_app) (r_id employee) (a_id process_payroll) = Some zero_cap \<and>
   limit_value zero_cap = Some 0 \<and>
   csvRow zero_app employee process_payroll =
     [Str ''Employee'', Str ''Process Payroll'', Str ''conditional'', Str [],
      Str ''Pre-approved only'', Str ''Financial''] \<and>
   spec_csvRow zero_app employee process_payroll =
     [Str ''Employee'', Str ''Process Payroll'', Str ''conditional'', Num 0,
      Str ''Pre-approved only'', Str ''Financial''] \<and>
   quote (csvRow zero_app employee process_payroll ! 3) = [CHR 0x22, CHR 0x22] \<and>
   quote (spec_csvRow zero_app employee process_payroll ! 3) = [CHR 0x22, CHR ''0'', CHR 0x22]"
  by (simp add: zero_app_def sample_app_def zero_cap_def manager_approve_def employee_def
      process_payroll_def getPermission_def matches_def csvRow_def spec_csvRow_def
      limit_field_def spec_limit_field_def limit_of_def conditions_field_def conditions_of_def
      currentStatus_def status_string_def quote_def render_def string_of_int_examples)


section \<open>The action filter\<close>

lemma starts_with_iff: "starts_with s t \<longleftrightarrow> (\<exists>post. s = t @ post)"
  by (induction s t rule: starts_with.induct) auto

lemma includes_str_iff: "includes_str s t \<longleftrightarrow> (\<exists>pre post. s = pre @ t @ post)"
proof (induction s)
  case Nil
  then show ?case by simp
next
  case (Cons x s)
  show ?case
  proof
    assume "includes_str (x # s) t"
    then consider "starts_with (x # s) t" | "includes_str s t" by auto
    then show "\<exists>pre post. x # s = pre @ t @ post"
    proof cases
      case 1
      then obtain post where "x # s = [] @ t @ post" by (auto simp: starts_with_iff)
      then show ?thesis by blast
    next
      case 2
      with Cons.IH obtain pre post where "s = pre @ t @ post" by blast
      then have "x # s = (x # pre) @ t @ post" by simp
      then show ?thesis by blast
    qed
  next
    assume "\<exists>pre post. x # s = pre @ t @ post"
    then obtain pre post where split: "x # s = pre @ t @ post" by blast
    show "includes_str (x # s) t"
    proof (cases pre)
      case Nil
      with split have "starts_with (x # s) t" by (auto simp: starts_with_iff)
      then show ?thesis by simp
    next
      case (Cons y pre')
      with split have "s = pre' @ t @ post" by simp
      with Cons.IH have "includes_str s t" by blast
      then show ?thesis by simp
    qed
  qed
qed

lemma includes_contains_ci:
  "includes_str (lower s) (lower t) \<longleftrightarrow> contains_ci lower s t"
  by (simp add: includes_str_iff contains_ci_def)

lemma matchesSearch_iff:
  "matchesSearch lower st a \<longleftrightarrow>
     contains_ci lower (a_name a) (searchTerm st) \<or>
     (\<exists>d. a_description a = Some d \<and> contains_ci lower d (searchTerm st))"
  by (simp add: matchesSearch_def includes_contains_ci split: option.splits)

text \<open>
  The view's filter keeps exactly the actions that pass both filters, in catalog
  order: the category is the selected one (or "all" is selected), and the search term
  occurs, after lower-casing both sides, in the name or in the description. An action
  that passes the category filter but whose name and description do not contain the
  term is not kept. This holds for every lower-casing function.
\<close>

lemma filteredActions_both_filters:
  "filteredActions lower st =
     filter (\<lambda>a. (selectedCategory st = ''all'' \<or> a_category a = selectedCategory st) \<and>
                 (contains_ci lower (a_name a) (searchTerm st) \<or>
                  (\<exists>d. a_description a = Some d \<and> contains_ci lower d (searchTerm st))))
            (actions st) \<and>
   (\<forall>a. a \<in> set (filteredActions lower st) \<longleftrightarrow>
      a \<in> set (actions st) \<and>
      (selectedCategory st = ''all'' \<or> a_category a = selectedCategory st) \<and>
      (contains_ci lower (a_name a) (searchTerm st) \<or>
       (\<exists>d. a_description a = Some d \<and> contains_ci lower d (searchTerm st)))) \<and>
   (\<forall>a. (selectedCategory st = ''all'' \<or> a_category a = selectedCategory st) \<and>
        \<not> contains_ci lower (a_name a) (searchTerm st) \<and>
        (\<forall>d. a_description a = Some d \<longrightarrow> \<not> contains_ci lower d (searchTerm st)) \<longrightarrow>
        a \<notin> set (filteredActions lower st))"
proof -
  have eq: "filteredActions lower st =
     filter (\<lambda>a. (selectedCategory st = ''all'' \<or> a_category a = selectedCategory st) \<and>
                 (contains_ci lower (a_name a) (searchTerm st) \<or>
                  (\<exists>d. a_description a = Some d \<and> contains_ci lower d (searchTerm st))))
            (actions st)"
    by (simp add: filteredActions_def matchesCategory_def matchesSearch_iff)
  show ?thesis
    by (rule conjI, rule eq, subst eq, subst eq) auto
qed

text \<open>
  The sample catalog under category "Financial" and search term "EXPENSE": Process
  Payroll is in the category but neither its name nor its description contains the
  term, and it is filtered out; Approve Expense Reports passes both filters.
\<close>

lemma filteredActions_both_filters_sample:
  "a_category process_payroll = selectedCategory sample_app \<and>
   \<not> contains_ci toLowerCase (a_name process_payroll) (searchTerm sample_app) \<and>
   \<not> contains_ci toLowerCase ''Access to payroll processing systems'' (searchTerm sample_app) \<and>
   process_payroll \<in> set (actions sample_app) \<and>
   process_payroll \<notin> set (filteredActions toLowerCase sample_app) \<and>
   a_category approve_expense = selectedCategory sample_app \<and>
   contains_ci toLowerCase (a_name approve_expense) (searchTerm sample_app) \<and>
   approve_expense \<in> set (filteredActions toLowerCase sample_app)"
proof -
  have cat: "a_category process_payroll = selectedCategory sample_app"
    "a_category approve_expense = selectedCategory sample_app"
    by (simp_all add: process_payroll_def approve_expense_def sample_app_def)
  have descr: "a_description process_payroll = Some ''Access to payroll processing systems''"
    by (simp add: process_payroll_def)
  have "\<not> includes_str (toLowerCase (a_name process_payroll)) (toLowerCase (searchTerm sample_app))"
    by code_simp
  then have no_name: "\<not> contains_ci toLowerCase (a_name process_payroll) (searchTerm sample_app)"
    by (simp add: includes_contains_ci)
  have "\<not> includes_str (toLowerCase ''Access to payroll processing systems'')
           (toLowerCase (searchTerm sample_app))"
    by code_simp
  then have no_descr:
    "\<not> contains_ci toLowerCase ''Access to payroll processing systems'' (searchTerm sample_app)"
    by (simp add: includes_contains_ci)
  have "includes_str (toLowerCase (a_name approve_expense)) (toLowerCase (searchTerm sample_app))"
    by code_simp
  then have name: "contains_ci toLowerCase (a_name approve_expense) (searchTerm sample_app)"
    by (simp add: includes_contains_ci)
  have mem: "process_payroll \<in> set (actions sample_app)" "approve_expense \<in> set (actions sample_app)"
    by (simp_all add: sample_app_def)
  note both = filteredActions_both_filters [of toLowerCase sample_app]
  have "\<forall>d. a_description process_payroll = Some d \<longrightarrow>
      \<not> contains_ci toLowerCase d (searchTerm sample_app)"
    using descr no_descr by simp
  with both [THEN conjunct2, THEN conjunct2, rule_format, of process_payroll] cat(1) no_name
  have out: "process_payroll \<notin> set (filteredActions toLowerCase sample_app)"
    by simp
  from both [THEN conjunct2, THEN conjunct1, rule_format, of approve_expense] cat(2) name mem(2)
  have "approve_expense \<in> set (filteredActions toLowerCase sample_app)"
    by simp
  with cat no_name no_descr mem out name show ?thesis by simp
qed


text \<open>
  The single-component revision: where every action whose name misses the term has a
  description, its filter returns what the view's filter returns; where one has none,
  it raises.
\<close>

lemma filter_raising_total:
  "\<forall>x \<in> set xs. f x = Inr (g x) \<Longrightarrow> filter_raising f xs = Inr (filter g xs)"
  by (induction xs) simp_all

lemma filter_raising_raises:
  "x \<in> set xs \<Longrightarrow> f x = Inl err \<Longrightarrow> filter_raising f xs = Inl TypeError"
proof (induction xs)
  case Nil
  then show ?case by simp
next
  case (Cons y ys)
  have single: "\<And>e. e = TypeError" by (rule js_error.induct) simp
  show ?case
  proof (cases "f y")
    case (Inl e)
    with single [of e] show ?thesis by simp
  next
    case (Inr keep)
    with Cons.prems have "x \<in> set ys" by auto
    with Cons.IH Cons.prems(2) have "filter_raising f ys = Inl TypeError" by simp
    with Inr show ?thesis by simp
  qed
qed

lemma matchesSearch_single_described:
  "a_description a \<noteq> None \<or> includes_str (lower (a_name a)) (lower (searchTerm st)) \<Longrightarrow>
   matchesSearch_single lower st a = Inr (matchesSearch lower st a)"
  by (auto simp: matchesSearch_single_def matchesSearch_def split: option.splits)

lemma filteredActions_single_agrees:
  assumes "\<forall>a \<in> set (actions st).
      a_description a \<noteq> None \<or> includes_str (lower (a_name a)) (lower (searchTerm st))"
  shows "filteredActions_single lower st = Inr (filteredActions lower st)"
proof -
  have "\<forall>a \<in> set (actions st).
      (case matchesSearch_single lower st a of
         Inl err \<Rightarrow> Inl err
       | Inr found \<Rightarrow> Inr (matchesCategory st a \<and> found)) =
      Inr (matchesCategory st a \<and> matchesSearch lower st a)"
  proof
    fix a assume "a \<in> set (actions st)"
    with assms have "matchesSearch_single lower st a = Inr (matchesSearch lower st a)"
      by (simp add: matchesSearch_single_described)
    then show "(case matchesSearch_single lower st a of
         Inl err \<Rightarrow> Inl err
       | Inr found \<Rightarrow> Inr (matchesCategory st a \<and> found)) =
      Inr (matchesCategory st a \<and> matchesSearch lower st a)"
      by simp
  qed
  then show ?thesis
    unfolding filteredActions_single_def filteredActions_def
    by (rule filter_raising_total)
qed

lemma filteredActions_single_raises:
  assumes "a \<in> set (actions st)" and "a_description a = None"
    and "\<not> includes_str (lower (a_name a)) (lower (searchTerm st))"
  shows "filteredActions_single lower st = Inl TypeError"
  unfolding filteredActions_single_def
  by (rule filter_raising_raises [OF assms(1)]) (simp add: matchesSearch_single_def assms)

text \<open>
  Claim C8. The projection keeps exactly the actions that pass both the category
  filter and the case-insensitive search in name or description: the view's filter
  does (lemma \<open>filteredActions_both_filters\<close>), and an action without description
  whose name misses the term is left out there. The filter of the single-component
  revision reads the description without \<^verbatim>\<open>?.\<close> and raises a TypeError at such an
  action, so that nothing is projected at all. Evaluated on the sample catalog under
  category "Financial" and search term "EXPENSE", where Manage Projects has no
  description:
\<close>

theorem filteredActions_single_raises_TypeError:
  "manage_projects \<in> set (actions sample_app) \<and>
   a_description manage_projects = None \<and>
   includes_str (toLowerCase (a_name manage_projects)) (toLowerCase (searchTerm sample_app)) = False \<and>
   filteredActions_single toLowerCase sample_app = Inl TypeError \<and>
   filteredActions toLowerCase sample_app = [approve_expense]"
proof -
  have mem: "manage_projects \<in> set (actions sample_app)" by (simp add: sample_app_def)
  have descr: "a_description manage_projects = None" by (simp add: manage_projects_def)
  have miss: "\<not> includes_str (toLowerCase (a_name manage_projects)) (toLowerCase (searchTerm sample_app))"
    by code_simp
  have view: "filteredActions toLowerCase sample_app = [approve_expense]" by code_simp
  from filteredActions_single_raises [OF mem descr miss] mem descr miss view
  show ?thesis by simp
qed


section \<open>The store and the mutator\<close>

lemma set_status_fields:
  "pair_of (set_status pid s p) = pair_of p"
  "p_id (set_status pid s p) = p_id p"
  "role_id (set_status pid s p) = role_id p"
  "action_id (set_status pid s p) = action_id p"
  "limit_value (set_status pid s p) = limit_value p"
  "conditions (set_status pid s p) = conditions p"
  by (simp_all add: set_status_def pair_of_def)

lemma matches_set_status: "matches r a (set_status pid s p) = matches r a p"
  by (simp add: matches_def set_status_fields)

lemma getPermission_map_set_status:
  "getPermission (map (set_status pid s) ps) r a = map_option (set_status pid s) (getPermission ps r a)"
  by (induction ps) (simp_all add: getPermission_Nil getPermission_Cons matches_set_status)

lemma map_pair_of_set_status: "map pair_of (map (set_status pid s) ps) = map pair_of ps"
  by (induction ps) (simp_all add: set_status_fields)

lemma unique_pairs_map_set_status: "unique_pairs (map (set_status pid s) ps) = unique_pairs ps"
  by (simp only: unique_pairs_def map_pair_of_set_status)

lemma unique_pairs_snoc:
  "unique_pairs ps \<Longrightarrow> pair_of q \<notin> set (map pair_of ps) \<Longrightarrow> unique_pairs (ps @ [q])"
  by (simp add: unique_pairs_def)

lemma pair_of_new_row: "pair_of (new_row nid r a s) = (r, a)"
  by (simp add: pair_of_def new_row_def)

lemma matches_new_row: "matches r a (new_row nid r a s)"
  by (simp add: matches_def new_row_def)

lemma store_update_Inr:
  "store_update f db pid s = Inr db' \<longleftrightarrow>
     f = None \<and> db' = db\<lparr>db_permissions := map (set_status pid s) (db_permissions db)\<rparr>"
  by (cases f) (auto simp: store_update_def)

lemma store_insert_Inr:
  "store_insert f db nid r a s = Inr db' \<longleftrightarrow>
     f = None \<and> nid \<notin> set (map p_id (db_permissions db)) \<and>
     r \<in> set (map r_id (db_roles db)) \<and> a \<in> set (map a_id (db_actions db)) \<and>
     (r, a) \<notin> set (map pair_of (db_permissions db)) \<and>
     db' = db\<lparr>db_permissions := db_permissions db @ [new_row nid r a s]\<rparr>"
  by (cases f) (auto simp: store_insert_def)

lemma write_permission_Inr:
  "write_permission e db st r a s = Inr db' \<longleftrightarrow>
     write_fault e = None \<and>
     ((\<exists>p. getPermission (permissions st) r a = Some p \<and>
           db' = db\<lparr>db_permissions := map (set_status (p_id p) s) (db_permissions db)\<rparr>) \<or>
      (getPermission (permissions st) r a = None \<and>
       new_id e \<notin> set (map p_id (db_permissions db)) \<and>
       r \<in> set (map r_id (db_roles db)) \<and> a \<in> set (map a_id (db_actions db)) \<and>
       (r, a) \<notin> set (map pair_of (db_permissions db)) \<and>
       db' = db\<lparr>db_permissions := db_permissions db @ [new_row (new_id e) r a s]\<rparr>))"
  by (cases "getPermission (permissions st) r a")
     (auto simp: write_permission_def store_update_Inr store_insert_Inr)

lemma write_permission_unique:
  assumes "unique_pairs (db_permissions db)" and "write_permission e db st r a s = Inr db'"
  shows "unique_pairs (db_permissions db')"
  using assms
  by (auto simp: write_permission_Inr unique_pairs_map_set_status pair_of_new_row
      intro!: unique_pairs_snoc)

lemma write_permission_frame:
  "write_permission e db st r a s = Inr db' \<Longrightarrow>
   db_roles db' = db_roles db \<and> db_actions db' = db_actions db \<and> db_profiles db' = db_profiles db"
  by (auto simp: write_permission_Inr)

lemma updatePermission_rejected:
  "write_permission e db st r a s = Inl err \<Longrightarrow>
   updatePermission e db st r a s = (db, st, [Error ''Failed to update permission.''])"
  by (simp add: updatePermission_def)

lemma updatePermission_accepted:
  "write_permission e db st r a s = Inr db' \<Longrightarrow>
   updatePermission e db st r a s =
     (db', fst (loadData e db' st),
      snd (loadData e db' st) @ [Success ''Permission updated successfully.''])"
  by (simp add: updatePermission_def)

lemma updatePermission_cases:
  assumes "updatePermission e db st r a s = (db1, st1, t1)"
  obtains (rejected) err where "write_permission e db st r a s = Inl err"
      "db1 = db" "st1 = st" "t1 = [Error ''Failed to update permission.'']"
    | (accepted) "write_permission e db st r a s = Inr db1"
      "st1 = fst (loadData e db1 st)"
      "t1 = snd (loadData e db1 st) @ [Success ''Permission updated successfully.'']"
proof (cases "write_permission e db st r a s")
  case (Inl err)
  from updatePermission_rejected [OF Inl] assms
  have "db1 = db" "st1 = st" "t1 = [Error ''Failed to update permission.'']"
    by simp_all
  with Inl show ?thesis by (rule rejected)
next
  case (Inr db')
  from updatePermission_accepted [OF Inr] assms
  have eqs: "db1 = db'" "st1 = fst (loadData e db' st)"
    "t1 = snd (loadData e db' st) @ [Success ''Permission updated successfully.'']"
    by simp_all
  show ?thesis
  proof (rule accepted)
    show "write_permission e db st r a s = Inr db1" using Inr eqs by simp
    show "st1 = fst (loadData e db1 st)" using eqs by simp
    show "t1 = snd (loadData e db1 st) @ [Success ''Permission updated successfully.'']"
      using eqs by simp
  qed
qed

lemma loadData_ok:
  "load_fault e = None \<Longrightarrow>
   fst (loadData e db st) =
     st\<lparr>roles := db_roles db, actions := db_actions db, permissions := db_permissions db,
        profiles := db_profiles db, userRole := userRole_of (rpc_user_role e), loading := False,
        selectedCategory := ''all'', searchTerm := []\<rparr> \<and>
   snd (loadData e db st) = []"
  by (simp add: loadData_def)

lemma loadData_failed:
  "load_fault e = Some err \<Longrightarrow>
   fst (loadData e db st) =
     st\<lparr>loading := False, selectedCategory := ''all'', searchTerm := []\<rparr> \<and>
   snd (loadData e db st) = [Error ''Failed to load authorization data.'']"
  by (simp add: loadData_def)

lemma loadData_catalog:
  "(roles (fst (loadData e db st)) = roles st \<and> actions (fst (loadData e db st)) = actions st \<and>
    permissions (fst (loadData e db st)) = permissions st \<and>
    profiles (fst (loadData e db st)) = profiles st \<and> load_fault e \<noteq> None) \<or>
   (load_fault e = None \<and> in_sync db (fst (loadData e db st)))"
  by (cases "load_fault e") (simp_all add: loadData_def in_sync_def)

lemma rows_for_pair_le_1:
  "unique_pairs ps \<Longrightarrow> length (filter (matches r a) ps) \<le> 1"
proof (induction ps)
  case Nil
  then show ?case by simp
next
  case (Cons x xs)
  then have uniq: "unique_pairs xs" and fresh: "pair_of x \<notin> set (map pair_of xs)"
    by (simp_all add: unique_pairs_def)
  show ?case
  proof (cases "matches r a x")
    case True
    have "filter (matches r a) xs = []"
    proof -
      have "\<forall>q \<in> set xs. \<not> matches r a q"
      proof
        fix q assume "q \<in> set xs"
        then have "pair_of q \<in> set (map pair_of xs)" by simp
        with fresh have "pair_of q \<noteq> pair_of x" by metis
        with True show "\<not> matches r a q" by (simp add: matches_pair_of)
      qed
      then show ?thesis by (simp add: filter_empty_conv)
    qed
    with True show ?thesis by simp
  next
    case False
    with Cons.IH [OF uniq] show ?thesis by simp
  qed
qed

lemma updatePermission_unique:
  assumes "unique_pairs (db_permissions db)"
    and "updatePermission e db st r a s = (db1, st1, t1)"
  shows "unique_pairs (db_permissions db1)"
  using assms(2)
proof (cases rule: updatePermission_cases)
  case (rejected err)
  with assms(1) show ?thesis by simp
next
  case accepted
  with assms(1) show ?thesis by (simp add: write_permission_unique)
qed

lemma updatePermission_local:
  assumes "updatePermission e db st r a s = (db1, st1, t1)"
  shows "permissions st1 = permissions st \<or> permissions st1 = db_permissions db1"
  using assms
proof (cases rule: updatePermission_cases)
  case (rejected err)
  then show ?thesis by simp
next
  case accepted
  with loadData_catalog [of e db1 st] show ?thesis by (auto simp: in_sync_def)
qed

lemma updatePermission_local_unique:
  assumes "unique_pairs (db_permissions db)" and "unique_pairs (permissions st)"
    and "updatePermission e db st r a s = (db1, st1, t1)"
  shows "unique_pairs (permissions st1)"
  using updatePermission_local [OF assms(3)] updatePermission_unique [OF assms(1,3)] assms(2)
  by auto

text \<open>An accepted update of an existing row, seen from a synchronised view.\<close>

lemma update_in_place:
  assumes sync: "permissions st = db_permissions db"
    and found: "getPermission (permissions st) r a = Some p"
    and ok: "write_fault e = None"
    and run: "updatePermission e db st r a s = (db1, st1, t1)"
  shows "db_permissions db1 = map (set_status (p_id p) s) (db_permissions db)"
    and "getPermission (db_permissions db1) r a = Some (p\<lparr>status := s\<rparr>)"
    and "load_fault e = None \<Longrightarrow> permissions st1 = db_permissions db1"
    and "db_roles db1 = db_roles db" and "db_actions db1 = db_actions db"
proof -
  have w: "write_permission e db st r a s =
      Inr (db\<lparr>db_permissions := map (set_status (p_id p) s) (db_permissions db)\<rparr>)"
    using found ok by (simp add: write_permission_Inr)
  from updatePermission_accepted [OF w] run
  have db1: "db1 = db\<lparr>db_permissions := map (set_status (p_id p) s) (db_permissions db)\<rparr>"
    and st1: "st1 = fst (loadData e db1 st)"
    by simp_all
  from db1 show rows: "db_permissions db1 = map (set_status (p_id p) s) (db_permissions db)"
    by simp
  from found sync have "getPermission (db_permissions db) r a = Some p" by simp
  then show "getPermission (db_permissions db1) r a = Some (p\<lparr>status := s\<rparr>)"
    by (simp add: rows getPermission_map_set_status set_status_def)
  show "load_fault e = None \<Longrightarrow> permissions st1 = db_permissions db1"
    by (simp add: st1 loadData_ok)
  from db1 show "db_roles db1 = db_roles db" "db_actions db1 = db_actions db" by simp_all
qed

text \<open>An accepted insert for a pair without a row, seen from a synchronised view.\<close>

lemma insert_one_row:
  assumes sync: "permissions st = db_permissions db"
    and absent: "getPermission (permissions st) r a = None"
    and ok: "write_fault e = None"
    and fresh: "new_id e \<notin> set (map p_id (db_permissions db))"
    and fk: "r \<in> set (map r_id (db_roles db))" "a \<in> set (map a_id (db_actions db))"
    and run: "updatePermission e db st r a s = (db1, st1, t1)"
  shows "db_permissions db1 = db_permissions db @ [new_row (new_id e) r a s]"
    and "getPermission (db_permissions db1) r a = Some (new_row (new_id e) r a s)"
    and "load_fault e = None \<Longrightarrow> permissions st1 = db_permissions db1"
    and "db_roles db1 = db_roles db" and "db_actions db1 = db_actions db"
proof -
  from absent sync have none: "\<forall>q \<in> set (db_permissions db). \<not> matches r a q"
    by (simp add: getPermission_None_iff)
  then have "(r, a) \<notin> set (map pair_of (db_permissions db))"
    by (auto simp: matches_pair_of)
  with absent ok fresh fk
  have w: "write_permission e db st r a s =
      Inr (db\<lparr>db_permissions := db_permissions db @ [new_row (new_id e) r a s]\<rparr>)"
    by (simp add: write_permission_Inr)
  from updatePermission_accepted [OF w] run
  have db1: "db1 = db\<lparr>db_permissions := db_permissions db @ [new_row (new_id e) r a s]\<rparr>"
    and st1: "st1 = fst (loadData e db1 st)"
    by simp_all
  from db1 show rows: "db_permissions db1 = db_permissions db @ [new_row (new_id e) r a s]"
    by simp
  from absent sync have "getPermission (db_permissions db) r a = None" by simp
  then show "getPermission (db_permissions db1) r a = Some (new_row (new_id e) r a s)"
    by (simp add: rows getPermission_append getPermission_Cons matches_new_row)
  show "load_fault e = None \<Longrightarrow> permissions st1 = db_permissions db1"
    by (simp add: st1 loadData_ok)
  from db1 show "db_roles db1 = db_roles db" "db_actions db1 = db_actions db" by simp_all
qed

lemma set_status_other_id:
  "pid \<notin> set (map p_id ps) \<Longrightarrow> map (set_status pid s) ps = ps"
  by (induction ps) (auto simp: set_status_def)

lemma set_status_new_row: "set_status nid s2 (new_row nid r a s1) = new_row nid r a s2"
  by (simp add: set_status_def new_row_def)

lemma set_status_only_row:
  assumes ids: "distinct (map p_id ps)" and mem: "p \<in> set ps"
  shows "map (set_status (p_id p) s) ps = map (\<lambda>q. if q = p then q\<lparr>status := s\<rparr> else q) ps"
proof (rule map_cong [OF refl])
  fix q assume q: "q \<in> set ps"
  from ids have "inj_on p_id (set ps)" by (simp add: distinct_map)
  with q mem have "p_id q = p_id p \<longleftrightarrow> q = p" by (auto dest: inj_onD)
  then show "set_status (p_id p) s q = (if q = p then q\<lparr>status := s\<rparr> else q)"
    by (simp add: set_status_def)
qed

lemma map_fields_set_status:
  "map p_id (map (set_status pid s) ps) = map p_id ps"
  "map limit_value (map (set_status pid s) ps) = map limit_value ps"
  "map conditions (map (set_status pid s) ps) = map conditions ps"
  by (induction ps) (simp_all add: set_status_fields)

text \<open>
  Claim C2. Starting from a store table with at most one row per pair, two successive
  calls of \<open>updatePermission\<close> on one pair, whatever the surroundings do and whatever the
  local list holds, leave at most one row per pair after each call, in the table and
  in the local list (if the local list had the property). Seen from a view in step
  with the store, an accepted write updates in place when the pair has a row (same
  rows, identifiers and pairs in the same order, the pair's row with the new status;
  with distinct identifiers no other row changes), and otherwise appends exactly one
  row, which the second call then updates.
\<close>

theorem updatePermission_one_row_per_pair:
  assumes uniq: "unique_pairs (db_permissions db)"
    and first: "updatePermission e1 db st r a s1 = (db1, st1, t1)"
    and second: "updatePermission e2 db1 st1 r a s2 = (db2, st2, t2)"
  shows "unique_pairs (db_permissions db1) \<and> unique_pairs (db_permissions db2) \<and>
    length (filter (matches r a) (db_permissions db1)) \<le> 1 \<and>
    length (filter (matches r a) (db_permissions db2)) \<le> 1 \<and>
    (unique_pairs (permissions st) \<longrightarrow>
       unique_pairs (permissions st1) \<and> unique_pairs (permissions st2)) \<and>
    (in_sync db st \<and> write_fault e1 = None \<longrightarrow>
       (\<forall>p. getPermission (permissions st) r a = Some p \<longrightarrow>
          db_permissions db1 = map (set_status (p_id p) s1) (db_permissions db) \<and>
          length (db_permissions db1) = length (db_permissions db) \<and>
          map pair_of (db_permissions db1) = map pair_of (db_permissions db) \<and>
          map p_id (db_permissions db1) = map p_id (db_permissions db) \<and>
          getPermission (db_permissions db1) r a = Some (p\<lparr>status := s1\<rparr>) \<and>
          (distinct (map p_id (db_permissions db)) \<longrightarrow>
             db_permissions db1 =
               map (\<lambda>q. if q = p then q\<lparr>status := s1\<rparr> else q) (db_permissions db))) \<and>
       (getPermission (permissions st) r a = None \<and>
        new_id e1 \<notin> set (map p_id (db_permissions db)) \<and>
        r \<in> set (map r_id (db_roles db)) \<and> a \<in> set (map a_id (db_actions db)) \<longrightarrow>
          db_permissions db1 = db_permissions db @ [new_row (new_id e1) r a s1] \<and>
          length (filter (matches r a) (db_permissions db1)) = 1 \<and>
          (load_fault e1 = None \<and> write_fault e2 = None \<longrightarrow>
             db_permissions db2 = db_permissions db @ [new_row (new_id e1) r a s2] \<and>
             length (filter (matches r a) (db_permissions db2)) = 1)))"
proof -
  have u1: "unique_pairs (db_permissions db1)"
    using uniq first by (rule updatePermission_unique)
  have u2: "unique_pairs (db_permissions db2)"
    using u1 second by (rule updatePermission_unique)
  have local: "unique_pairs (permissions st) \<longrightarrow>
       unique_pairs (permissions st1) \<and> unique_pairs (permissions st2)"
  proof
    assume l0: "unique_pairs (permissions st)"
    have l1: "unique_pairs (permissions st1)"
      using uniq l0 first by (rule updatePermission_local_unique)
    have "unique_pairs (permissions st2)"
      using u1 l1 second by (rule updatePermission_local_unique)
    with l1 show "unique_pairs (permissions st1) \<and> unique_pairs (permissions st2)" ..
  qed
  have synced: "in_sync db st \<and> write_fault e1 = None \<longrightarrow>
       (\<forall>p. getPermission (permissions st) r a = Some p \<longrightarrow>
          db_permissions db1 = map (set_status (p_id p) s1) (db_permissions db) \<and>
          length (db_permissions db1) = length (db_permissions db) \<and>
          map pair_of (db_permissions db1) = map pair_of (db_permissions db) \<and>
          map p_id (db_permissions db1) = map p_id (db_permissions db) \<and>
          getPermission (db_permissions db1) r a = Some (p\<lparr>status := s1\<rparr>) \<and>
          (distinct (map p_id (db_permissions db)) \<longrightarrow>
             db_permissions db1 =
               map (\<lambda>q. if q = p then q\<lparr>status := s1\<rparr> else q) (db_permissions db))) \<and>
       (getPermission (permissions st) r a = None \<and>
        new_id e1 \<notin> set (map p_id (db_permissions db)) \<and>
        r \<in> set (map r_id (db_roles db)) \<and> a \<in> set (map a_id (db_actions db)) \<longrightarrow>
          db_permissions db1 = db_permissions db @ [new_row (new_id e1) r a s1] \<and>
          length (filter (matches r a) (db_permissions db1)) = 1 \<and>
          (load_fault e1 = None \<and> write_fault e2 = None \<longrightarrow>
             db_permissions db2 = db_permissions db @ [new_row (new_id e1) r a s2] \<and>
             length (filter (matches r a) (db_permissions db2)) = 1))"
  proof (intro impI conjI allI)
    fix p
    assume hyp: "in_sync db st \<and> write_fault e1 = None"
      and found: "getPermission (permissions st) r a = Some p"
    from hyp have sync: "permissions st = db_permissions db" and ok: "write_fault e1 = None"
      by (simp_all add: in_sync_def)
    note upd = update_in_place [OF sync found ok first]
    show rows: "db_permissions db1 = map (set_status (p_id p) s1) (db_permissions db)"
      by (rule upd(1))
    show "length (db_permissions db1) = length (db_permissions db)"
      by (simp add: rows)
    show "map pair_of (db_permissions db1) = map pair_of (db_permissions db)"
      by (simp only: rows map_pair_of_set_status)
    show "map p_id (db_permissions db1) = map p_id (db_permissions db)"
      by (simp only: rows map_fields_set_status)
    show "getPermission (db_permissions db1) r a = Some (p\<lparr>status := s1\<rparr>)"
      by (rule upd(2))
    assume ids: "distinct (map p_id (db_permissions db))"
    from getPermission_SomeD [OF found] sync have "p \<in> set (db_permissions db)" by simp
    with ids show "db_permissions db1 =
        map (\<lambda>q. if q = p then q\<lparr>status := s1\<rparr> else q) (db_permissions db)"
      by (simp only: rows set_status_only_row)
  next
    assume hyp: "in_sync db st \<and> write_fault e1 = None"
      and ins: "getPermission (permissions st) r a = None \<and>
        new_id e1 \<notin> set (map p_id (db_permissions db)) \<and>
        r \<in> set (map r_id (db_roles db)) \<and> a \<in> set (map a_id (db_actions db))"
    from hyp have sync: "permissions st = db_permissions db" and ok: "write_fault e1 = None"
      by (simp_all add: in_sync_def)
    from ins have absent: "getPermission (permissions st) r a = None"
      and fresh: "new_id e1 \<notin> set (map p_id (db_permissions db))"
      and fk: "r \<in> set (map r_id (db_roles db))" "a \<in> set (map a_id (db_actions db))"
      by simp_all
    note new = insert_one_row [OF sync absent ok fresh fk first]
    show rows1: "db_permissions db1 = db_permissions db @ [new_row (new_id e1) r a s1]"
      by (rule new(1))
    from absent sync have none: "filter (matches r a) (db_permissions db) = []"
      by (simp add: getPermission_None_iff filter_empty_conv)
    show "length (filter (matches r a) (db_permissions db1)) = 1"
      by (simp add: rows1 none matches_new_row)
    {
      assume "load_fault e1 = None \<and> write_fault e2 = None"
      then have loaded: "load_fault e1 = None" and ok2: "write_fault e2 = None" by simp_all
      have sync1: "permissions st1 = db_permissions db1" by (rule new(3) [OF loaded])
      have found1: "getPermission (permissions st1) r a = Some (new_row (new_id e1) r a s1)"
        by (simp only: sync1 new(2))
      from update_in_place(1) [OF sync1 found1 ok2 second]
      have "db_permissions db2 =
          map (set_status (new_id e1) s2) (db_permissions db @ [new_row (new_id e1) r a s1])"
        by (simp add: rows1 new_row_def)
      then have "db_permissions db2 = db_permissions db @ [new_row (new_id e1) r a s2]"
        using fresh by (simp add: set_status_other_id set_status_new_row)
      then have "db_permissions db2 = db_permissions db @ [new_row (new_id e1) r a s2] \<and>
          length (filter (matches r a) (db_permissions db2)) = 1"
        by (simp add: none matches_new_row)
    }
    then show "load_fault e1 = None \<and> write_fault e2 = None \<Longrightarrow>
        db_permissions db2 = db_permissions db @ [new_row (new_id e1) r a s2]"
      and "load_fault e1 = None \<and> write_fault e2 = None \<Longrightarrow>
        length (filter (matches r a) (db_permissions db2)) = 1"
      by blast+
  qed
  from u1 u2 rows_for_pair_le_1 [OF u1, of r a] rows_for_pair_le_1 [OF u2, of r a] local synced
  show ?thesis by blast
qed

text \<open>
  The sample store and a view in step with it, at the pair (Employee, Process Payroll),
  which has no row: the first call inserts a granted row, the second call sets the same
  row to conditional, and the table ends with one row for the pair.
\<close>

theorem updatePermission_one_row_per_pair_witness:
  "unique_pairs (db_permissions sample_store) \<and> in_sync sample_store sample_app \<and>
   getPermission (permissions sample_app) ''r2'' ''a2'' = None \<and>
   db_permissions (fst after_first) = [manager_approve, new_row ''p9'' ''r2'' ''a2'' Granted] \<and>
   db_permissions (fst after_second) = [manager_approve, new_row ''p9'' ''r2'' ''a2'' Conditional] \<and>
   unique_pairs (db_permissions (fst after_second)) \<and>
   length (filter (matches ''r2'' ''a2'') (db_permissions (fst after_second))) = 1"
proof -
  have uniq: "unique_pairs (db_permissions sample_store)"
    by (simp add: sample_store_def unique_pairs_def)
  have sync: "in_sync sample_store sample_app"
    by (simp add: in_sync_def sample_store_def sample_app_def)
  have absent: "getPermission (permissions sample_app) ''r2'' ''a2'' = None"
    by (simp add: sample_app_def getPermission_def matches_def manager_approve_def)
  have env: "write_fault calm = None" "load_fault calm = None" "new_id calm = ''p9''"
    by (simp_all add: calm_def)
  have fresh: "new_id calm \<notin> set (map p_id (db_permissions sample_store))"
    by (simp add: env sample_store_def manager_approve_def)
  have fk: "''r2'' \<in> set (map r_id (db_roles sample_store))"
    "''a2'' \<in> set (map a_id (db_actions sample_store))"
    by (simp_all add: sample_store_def manager_def employee_def approve_expense_def
        process_payroll_def manage_projects_def)
  have first: "updatePermission calm sample_store sample_app ''r2'' ''a2'' Granted =
      (fst after_first, fst (snd after_first), snd (snd after_first))"
    by (simp add: after_first_def)
  have second: "updatePermission calm (fst after_first) (fst (snd after_first)) ''r2'' ''a2'' Conditional =
      (fst after_second, fst (snd after_second), snd (snd after_second))"
    by (simp add: after_second_def)
  note twice = updatePermission_one_row_per_pair [OF uniq first second]
  from twice have u2: "unique_pairs (db_permissions (fst after_second))" by blast
  from twice sync absent env fresh fk
  have rows1: "db_permissions (fst after_first) =
        db_permissions sample_store @ [new_row (new_id calm) ''r2'' ''a2'' Granted]"
    and rows2: "db_permissions (fst after_second) =
        db_permissions sample_store @ [new_row (new_id calm) ''r2'' ''a2'' Conditional]"
    and one: "length (filter (matches ''r2'' ''a2'') (db_permissions (fst after_second))) = 1"
    by blast+
  from rows1 have "db_permissions (fst after_first) =
      [manager_approve, new_row ''p9'' ''r2'' ''a2'' Granted]"
    by (simp add: env sample_store_def)
  moreover from rows2 have "db_permissions (fst after_second) =
      [manager_approve, new_row ''p9'' ''r2'' ''a2'' Conditional]"
    by (simp add: env sample_store_def)
  ultimately show ?thesis using uniq sync absent u2 one by blast
qed


text \<open>
  Claim C5. A call names only the new status. From a view in step with the store, with
  a row \<open>p\<close> for the pair, an accepted write followed by a successful reload leaves the
  lookup at the row \<open>p\<close> with nothing but its status replaced: the reads give the new
  status with the old limit_value and the old conditions. No row of the table changes
  its limit_value, conditions or identifier.
\<close>

theorem updatePermission_keeps_limit_and_conditions:
  assumes sync: "in_sync db st"
    and found: "getPermission (permissions st) r a = Some p"
    and ok: "write_fault e = None" "load_fault e = None"
    and run: "updatePermission e db st r a s = (db1, st1, t1)"
  shows "getPermission (permissions st1) r a = Some (p\<lparr>status := s\<rparr>) \<and>
    currentStatus (getPermission (permissions st1) r a) = s \<and>
    limit_of (getPermission (permissions st1) r a) = limit_value p \<and>
    conditions_of (getPermission (permissions st1) r a) = conditions p \<and>
    map limit_value (db_permissions db1) = map limit_value (db_permissions db) \<and>
    map conditions (db_permissions db1) = map conditions (db_permissions db) \<and>
    map p_id (db_permissions db1) = map p_id (db_permissions db) \<and>
    in_sync db1 st1 \<and>
    t1 = [Success ''Permission updated successfully.'']"
proof -
  from sync have perms: "permissions st = db_permissions db" by (simp add: in_sync_def)
  note upd = update_in_place [OF perms found ok(1) run]
  have local: "permissions st1 = db_permissions db1" by (rule upd(3) [OF ok(2)])
  have row: "getPermission (permissions st1) r a = Some (p\<lparr>status := s\<rparr>)"
    by (simp only: local upd(2))
  have w: "write_permission e db st r a s =
      Inr (db\<lparr>db_permissions := map (set_status (p_id p) s) (db_permissions db)\<rparr>)"
    using found ok(1) by (simp add: write_permission_Inr)
  from updatePermission_accepted [OF w] run
  have st1: "st1 = fst (loadData e db1 st)"
    and t1: "t1 = snd (loadData e db1 st) @ [Success ''Permission updated successfully.'']"
    by simp_all
  from loadData_catalog [of e db1 st] ok(2) st1 have sync1: "in_sync db1 st1" by simp
  from t1 ok(2) have toast: "t1 = [Success ''Permission updated successfully.'']"
    by (simp add: loadData_ok)
  have frame: "map limit_value (db_permissions db1) = map limit_value (db_permissions db)"
    "map conditions (db_permissions db1) = map conditions (db_permissions db)"
    "map p_id (db_permissions db1) = map p_id (db_permissions db)"
    by (simp_all only: upd(1) map_fields_set_status)
  from row have reads: "currentStatus (getPermission (permissions st1) r a) = s"
    "limit_of (getPermission (permissions st1) r a) = limit_value p"
    "conditions_of (getPermission (permissions st1) r a) = conditions p"
    by (simp_all add: currentStatus_def limit_of_def conditions_of_def)
  from row reads frame sync1 toast show ?thesis by blast
qed

text \<open>
  The scenario of the specification: (Manager, Approve Expense Reports) is granted with
  limit 10000; after the call with status conditional it reads conditional, limit
  10000, conditions unchanged.
\<close>

theorem updatePermission_keeps_limit_and_conditions_witness:
  "in_sync sample_store sample_app \<and>
   getPermission (permissions sample_app) ''r1'' ''a1'' = Some manager_approve \<and>
   status manager_approve = Granted \<and> limit_value manager_approve = Some 10000 \<and>
   currentStatus (getPermission (permissions (fst (snd after_conditional))) ''r1'' ''a1'') = Conditional \<and>
   limit_of (getPermission (permissions (fst (snd after_conditional))) ''r1'' ''a1'') = Some 10000 \<and>
   conditions_of (getPermission (permissions (fst (snd after_conditional))) ''r1'' ''a1'') =
     Some ''Own department''"
proof -
  have sync: "in_sync sample_store sample_app"
    by (simp add: in_sync_def sample_store_def sample_app_def)
  have found: "getPermission (permissions sample_app) ''r1'' ''a1'' = Some manager_approve"
    by (simp add: sample_app_def getPermission_def matches_def manager_approve_def)
  have env: "write_fault calm = None" "load_fault calm = None"
    by (simp_all add: calm_def)
  have run: "updatePermission calm sample_store sample_app ''r1'' ''a1'' Conditional =
      (fst after_conditional, fst (snd after_conditional), snd (snd after_conditional))"
    by (simp add: after_conditional_def)
  have fields: "status manager_approve = Granted" "limit_value manager_approve = Some 10000"
    "conditions manager_approve = Some ''Own department''"
    by (simp_all add: manager_approve_def)
  from updatePermission_keeps_limit_and_conditions [OF sync found env run]
  have "currentStatus (getPermission (permissions (fst (snd after_conditional))) ''r1'' ''a1'') = Conditional"
    and "limit_of (getPermission (permissions (fst (snd after_conditional))) ''r1'' ''a1'') =
      limit_value manager_approve"
    and "conditions_of (getPermission (permissions (fst (snd after_conditional))) ''r1'' ''a1'') =
      conditions manager_approve"
    by blast+
  with sync found fields show ?thesis by simp
qed

text \<open>
  Claim C9. When the store rejects the write (a fault of the surroundings or a
  constraint), the call returns the store and the whole component state as they were,
  and its only effect is the failure toast. A fault of the surroundings always rejects.
  The store changes only by an accepted write; and the local catalog (roles, actions,
  permissions) changes only when the write was accepted and the reload after it
  succeeded, and it is then the store's.
\<close>

theorem rejected_write_is_atomic:
  assumes run: "updatePermission e db st r a s = (db1, st1, t1)"
  shows "(\<forall>err. write_permission e db st r a s = Inl err \<longrightarrow>
            db1 = db \<and> st1 = st \<and> t1 = [Error ''Failed to update permission.'']) \<and>
    (\<forall>err. write_fault e = Some err \<longrightarrow> write_permission e db st r a s = Inl err) \<and>
    (db1 \<noteq> db \<longrightarrow> write_permission e db st r a s = Inr db1) \<and>
    ((roles st1, actions st1, permissions st1) \<noteq> (roles st, actions st, permissions st) \<longrightarrow>
       write_permission e db st r a s = Inr db1 \<and> load_fault e = None \<and> in_sync db1 st1)"
  using run
proof (cases rule: updatePermission_cases)
  case (rejected err)
  have "\<forall>err. write_fault e = Some err \<longrightarrow> write_permission e db st r a s = Inl err"
    by (auto simp: write_permission_def store_update_def store_insert_def split: option.splits)
  with rejected show ?thesis by simp
next
  case accepted
  have faults: "\<forall>err. write_fault e = Some err \<longrightarrow> write_permission e db st r a s = Inl err"
    by (auto simp: write_permission_def store_update_def store_insert_def split: option.splits)
  from loadData_catalog [of e db1 st] accepted(2)
  have "(roles st1, actions st1, permissions st1) \<noteq> (roles st, actions st, permissions st) \<longrightarrow>
       load_fault e = None \<and> in_sync db1 st1"
    by auto
  with accepted faults show ?thesis by simp
qed

text \<open>
  Two rejections on the sample store: the store is unreachable; and a stale view that
  lacks the row of (Manager, Approve Expense Reports) attempts an insert, which the
  uniqueness constraint refuses.
\<close>

theorem rejected_write_is_atomic_witness:
  "write_permission offline sample_store sample_app ''r1'' ''a1'' Conditional = Inl Unavailable \<and>
   updatePermission offline sample_store sample_app ''r1'' ''a1'' Conditional =
     (sample_store, sample_app, [Error ''Failed to update permission.'']) \<and>
   write_permission calm sample_store stale_app ''r1'' ''a1'' Conditional = Inl ConstraintViolation \<and>
   updatePermission calm sample_store stale_app ''r1'' ''a1'' Conditional =
     (sample_store, stale_app, [Error ''Failed to update permission.''])"
proof -
  have w1: "write_permission offline sample_store sample_app ''r1'' ''a1'' Conditional = Inl Unavailable"
    by (simp add: write_permission_def offline_def calm_def sample_app_def getPermission_def
        matches_def manager_approve_def store_update_def)
  have w2: "write_permission calm sample_store stale_app ''r1'' ''a1'' Conditional = Inl ConstraintViolation"
    by (simp add: write_permission_def calm_def stale_app_def sample_app_def getPermission_def
        store_insert_def sample_store_def manager_approve_def manager_def employee_def
        approve_expense_def process_payroll_def manage_projects_def pair_of_def)
  have run1: "updatePermission offline sample_store sample_app ''r1'' ''a1'' Conditional =
      (fst (updatePermission offline sample_store sample_app ''r1'' ''a1'' Conditional),
       fst (snd (updatePermission offline sample_store sample_app ''r1'' ''a1'' Conditional)),
       snd (snd (updatePermission offline sample_store sample_app ''r1'' ''a1'' Conditional)))"
    by simp
  have run2: "updatePermission calm sample_store stale_app ''r1'' ''a1'' Conditional =
      (fst (updatePermission calm sample_store stale_app ''r1'' ''a1'' Conditional),
       fst (snd (updatePermission calm sample_store stale_app ''r1'' ''a1'' Conditional)),
       snd (snd (updatePermission calm sample_store stale_app ''r1'' ''a1'' Conditional)))"
    by simp
  from rejected_write_is_atomic [OF run1] w1
  have "updatePermission offline sample_store sample_app ''r1'' ''a1'' Conditional =
     (sample_store, sample_app, [Error ''Failed to update permission.''])"
    by (metis prod.collapse)
  moreover from rejected_write_is_atomic [OF run2] w2
  have "updatePermission calm sample_store stale_app ''r1'' ''a1'' Conditional =
     (sample_store, stale_app, [Error ''Failed to update permission.''])"
    by (metis prod.collapse)
  ultimately show ?thesis using w1 w2 by simp
qed


section \<open>The toggle cycle\<close>

lemma nextStatus_cycle:
  "nextStatus Denied = Granted" "nextStatus Granted = Conditional" "nextStatus Conditional = Denied"
  by (simp_all add: nextStatus_def)

lemma nextStatus_thrice: "nextStatus (nextStatus (nextStatus s)) = s"
  by (cases s) (simp_all add: nextStatus_def)

lemma updatePermission_from_current:
  "updatePermission_from st e db st r a s = updatePermission e db st r a s"
  by (simp add: updatePermission_from_def updatePermission_def)

lemma includes_str_Nil: "includes_str s []"
  by (cases s) simp_all

lemma filteredActions_subset: "set (filteredActions lower st) \<subseteq> set (actions st)"
  by (simp add: filteredActions_def)

lemma filteredActions_unfiltered:
  "lower [] = [] \<Longrightarrow> selectedCategory st = ''all'' \<Longrightarrow> searchTerm st = [] \<Longrightarrow>
   filteredActions lower st = actions st"
  by (simp add: filteredActions_def matchesCategory_def matchesSearch_def includes_str_Nil)

lemma filter_raising_subset: "filter_raising f xs = Inr ys \<Longrightarrow> set ys \<subseteq> set xs"
proof (induction xs arbitrary: ys)
  case Nil
  then show ?case by simp
next
  case (Cons x xs)
  then show ?case
    by (auto split: sum.splits if_splits)
qed

lemma filteredActions_single_same_filter:
  assumes "actions st' = actions st" and "selectedCategory st' = selectedCategory st"
    and "searchTerm st' = searchTerm st"
  shows "filteredActions_single lower st' = filteredActions_single lower st"
  unfolding filteredActions_single_def matchesSearch_single_def matchesCategory_def assms
  by (rule refl)

text \<open>
  A write sent from a render whose permission list is the table's, with the store
  reachable and, for an insert, the drawn identifier unused and role and action in
  the store: it is accepted, and the table then holds a row for the pair with the
  status sent.
\<close>

lemma write_advances:
  assumes perms: "permissions v = db_permissions db" and ok: "write_fault e = None"
    and ins: "getPermission (permissions v) r a = None \<longrightarrow>
       new_id e \<notin> set (map p_id (db_permissions db)) \<and>
       r \<in> set (map r_id (db_roles db)) \<and> a \<in> set (map a_id (db_actions db))"
  obtains db' where "write_permission e db v r a s = Inr db'"
    and "getPermission (db_permissions db') r a \<noteq> None"
    and "currentStatus (getPermission (db_permissions db') r a) = s"
    and "db_roles db' = db_roles db" and "db_actions db' = db_actions db"
    and "db_profiles db' = db_profiles db"
proof (cases "getPermission (permissions v) r a")
  case None
  let ?db = "db\<lparr>db_permissions := db_permissions db @ [new_row (new_id e) r a s]\<rparr>"
  from None perms have none: "\<forall>q \<in> set (db_permissions db). \<not> matches r a q"
    by (simp add: getPermission_None_iff)
  then have free: "(r, a) \<notin> set (map pair_of (db_permissions db))"
    by (auto simp: matches_pair_of)
  from None ins ok free have w: "write_permission e db v r a s = Inr ?db"
    by (simp add: write_permission_Inr)
  from None perms have "getPermission (db_permissions db) r a = None" by simp
  then have row: "getPermission (db_permissions ?db) r a = Some (new_row (new_id e) r a s)"
    by (simp add: getPermission_append getPermission_Cons matches_new_row)
  show ?thesis
  proof (rule that [of ?db])
    show "write_permission e db v r a s = Inr ?db" by (rule w)
    show "getPermission (db_permissions ?db) r a \<noteq> None" using row by simp
    show "currentStatus (getPermission (db_permissions ?db) r a) = s"
      using row by (simp add: currentStatus_def new_row_def)
  qed simp_all
next
  case (Some p)
  let ?db = "db\<lparr>db_permissions := map (set_status (p_id p) s) (db_permissions db)\<rparr>"
  from Some ok have w: "write_permission e db v r a s = Inr ?db"
    by (simp add: write_permission_Inr)
  from Some perms have "getPermission (db_permissions db) r a = Some p" by simp
  then have row: "getPermission (db_permissions ?db) r a = Some (p\<lparr>status := s\<rparr>)"
    by (simp add: getPermission_map_set_status set_status_def)
  show ?thesis
  proof (rule that [of ?db])
    show "write_permission e db v r a s = Inr ?db" by (rule w)
    show "getPermission (db_permissions ?db) r a \<noteq> None" using row by simp
    show "currentStatus (getPermission (db_permissions ?db) r a) = s"
      using row by (simp add: currentStatus_def)
  qed simp_all
qed

text \<open>
  One click on a cell of the current render, accepted and reloaded, advances the shown
  status by one step and leaves the cell in the next render.
\<close>

lemma clickCell_advances:
  assumes sync: "in_sync db st" and edit: "canEdit (userRole st)"
    and rend: "rendered lower st r a" and low: "lower [] = []"
    and ok: "write_fault e = None" "load_fault e = None"
    and fresh: "getPermission (permissions st) r a = None \<longrightarrow>
       new_id e \<notin> set (map p_id (db_permissions db))"
    and run: "clickCell lower st e db st r a = (db1, st1, t1)"
  shows "in_sync db1 st1" and "shown st1 r a = nextStatus (shown st r a)"
    and "userRole st1 = userRole_of (rpc_user_role e)"
    and "getPermission (permissions st1) r a \<noteq> None"
    and "rendered lower st1 r a"
proof -
  let ?s = "nextStatus (currentStatus (getPermission (permissions st) r a))"
  from sync have perms: "permissions st = db_permissions db"
    and rs: "roles st = db_roles db" and as: "actions st = db_actions db"
    by (simp_all add: in_sync_def)
  from rend have r_in: "r \<in> set (map r_id (roles st))"
    and a_shown: "a \<in> set (map a_id (filteredActions lower st))"
    and tab: "activeTab st = ''matrix''"
    by (simp_all add: rendered_def)
  from a_shown filteredActions_subset [of lower st] have a_in: "a \<in> set (map a_id (actions st))"
    by auto
  from fresh r_in a_in rs as
  have ins: "getPermission (permissions st) r a = None \<longrightarrow>
       new_id e \<notin> set (map p_id (db_permissions db)) \<and>
       r \<in> set (map r_id (db_roles db)) \<and> a \<in> set (map a_id (db_actions db))"
    by simp
  from write_advances [OF perms ok(1) ins, of ?s]
  obtain db' where w: "write_permission e db st r a ?s = Inr db'"
    and row: "getPermission (db_permissions db') r a \<noteq> None"
      "currentStatus (getPermission (db_permissions db') r a) = ?s"
    and frame: "db_roles db' = db_roles db" "db_actions db' = db_actions db"
    by blast
  from run edit rend have "updatePermission_from st e db st r a ?s = (db1, st1, t1)"
    by (simp add: clickCell_def)
  with w have db1: "db1 = db'" and st1: "st1 = fst (loadData e db' st)"
    by (auto simp: updatePermission_from_def)
  from st1 ok(2) have loaded: "roles st1 = db_roles db'" "actions st1 = db_actions db'"
    "permissions st1 = db_permissions db'" "profiles st1 = db_profiles db'"
    "userRole st1 = userRole_of (rpc_user_role e)" "\<not> loading st1"
    "selectedCategory st1 = ''all''" "searchTerm st1 = []" "activeTab st1 = activeTab st"
    by (simp_all add: loadData_ok)
  from loaded db1 show "in_sync db1 st1" by (simp add: in_sync_def)
  from loaded row show "shown st1 r a = nextStatus (shown st r a)"
    and "getPermission (permissions st1) r a \<noteq> None"
    by (simp_all add: shown_def)
  from loaded show "userRole st1 = userRole_of (rpc_user_role e)" by simp
  from low loaded have "filteredActions lower st1 = actions st1"
    by (simp add: filteredActions_unfiltered)
  with loaded frame r_in a_in rs as tab show "rendered lower st1 r a"
    by (simp add: rendered_def)
qed

lemma clickCell_single_advances:
  assumes sync: "in_sync db st" and rend: "rendered_single lower st r a"
    and ok: "write_fault e = None" "load_fault e = None"
    and fresh: "getPermission (permissions st) r a = None \<longrightarrow>
       new_id e \<notin> set (map p_id (db_permissions db))"
    and run: "clickCell_single lower st e db st r a = (db1, st1, t1)"
  shows "in_sync db1 st1" and "shown st1 r a = nextStatus (shown st r a)"
    and "getPermission (permissions st1) r a \<noteq> None"
    and "rendered_single lower st1 r a"
proof -
  let ?s = "nextStatus (currentStatus (getPermission (permissions st) r a))"
  from sync have perms: "permissions st = db_permissions db"
    and rs: "roles st = db_roles db" and as: "actions st = db_actions db"
    by (simp_all add: in_sync_def)
  from rend obtain shown_actions where r_in: "r \<in> set (map r_id (roles st))"
    and flt: "filteredActions_single lower st = Inr shown_actions"
    and a_shown: "a \<in> set (map a_id shown_actions)"
    by (auto simp: rendered_single_def split: sum.splits)
  from flt have "set shown_actions \<subseteq> set (actions st)"
    unfolding filteredActions_single_def by (rule filter_raising_subset)
  with a_shown have a_in: "a \<in> set (map a_id (actions st))" by auto
  from fresh r_in a_in rs as
  have ins: "getPermission (permissions st) r a = None \<longrightarrow>
       new_id e \<notin> set (map p_id (db_permissions db)) \<and>
       r \<in> set (map r_id (db_roles db)) \<and> a \<in> set (map a_id (db_actions db))"
    by simp
  from write_advances [OF perms ok(1) ins, of ?s]
  obtain db' where w: "write_permission e db st r a ?s = Inr db'"
    and row: "getPermission (db_permissions db') r a \<noteq> None"
      "currentStatus (getPermission (db_permissions db') r a) = ?s"
    and frame: "db_roles db' = db_roles db" "db_actions db' = db_actions db"
    by blast
  from run rend have "updatePermission_single_from st e db st r a ?s = (db1, st1, t1)"
    by (simp add: clickCell_single_def)
  with w have db1: "db1 = db'" and st1: "st1 = fst (loadData_single e db' st)"
    by (auto simp: updatePermission_single_from_def)
  from st1 ok(2) have loaded: "roles st1 = db_roles db'" "actions st1 = db_actions db'"
    "permissions st1 = db_permissions db'" "profiles st1 = db_profiles db'" "\<not> loading st1"
    "selectedCategory st1 = selectedCategory st" "searchTerm st1 = searchTerm st"
    by (simp_all add: loadData_single_def)
  from loaded db1 show "in_sync db1 st1" by (simp add: in_sync_def)
  from loaded row show "shown st1 r a = nextStatus (shown st r a)"
    and "getPermission (permissions st1) r a \<noteq> None"
    by (simp_all add: shown_def)
  from loaded frame as have "filteredActions_single lower st1 = filteredActions_single lower st"
    by (simp add: filteredActions_single_same_filter)
  with flt loaded frame r_in a_shown rs show "rendered_single lower st1 r a"
    by (simp add: rendered_single_def)
qed


text \<open>Three clicks, each on the render the call before it has left behind.\<close>

lemma three_clicks_view:
  assumes sync: "in_sync db st" and low: "lower [] = []"
    and edit: "canEdit (userRole st)" and rend: "rendered lower st r a"
    and h1: "write_fault e1 = None" "load_fault e1 = None" "canEdit (userRole_of (rpc_user_role e1))"
    and h2: "write_fault e2 = None" "load_fault e2 = None" "canEdit (userRole_of (rpc_user_role e2))"
    and h3: "write_fault e3 = None" "load_fault e3 = None"
    and fresh: "getPermission (permissions st) r a = None \<longrightarrow>
       new_id e1 \<notin> set (map p_id (db_permissions db))"
  shows "shown (snd (clicks lower [e1] db st r a)) r a = nextStatus (shown st r a)"
    and "shown (snd (clicks lower [e1, e2] db st r a)) r a = nextStatus (nextStatus (shown st r a))"
    and "shown (snd (clicks lower [e1, e2, e3] db st r a)) r a = shown st r a"
proof -
  obtain db1 st1 t1 where c1: "clickCell lower st e1 db st r a = (db1, st1, t1)"
    by (cases "clickCell lower st e1 db st r a") auto
  obtain db2 st2 t2 where c2: "clickCell lower st1 e2 db1 st1 r a = (db2, st2, t2)"
    by (cases "clickCell lower st1 e2 db1 st1 r a") auto
  obtain db3 st3 t3 where c3: "clickCell lower st2 e3 db2 st2 r a = (db3, st3, t3)"
    by (cases "clickCell lower st2 e3 db2 st2 r a") auto
  note s1 = clickCell_advances [OF sync edit rend low h1(1,2) fresh c1]
  from s1(3) h1(3) have edit1: "canEdit (userRole st1)" by simp
  from s1(4) have fresh1: "getPermission (permissions st1) r a = None \<longrightarrow>
       new_id e2 \<notin> set (map p_id (db_permissions db1))"
    by blast
  note s2 = clickCell_advances [OF s1(1) edit1 s1(5) low h2(1,2) fresh1 c2]
  from s2(3) h2(3) have edit2: "canEdit (userRole st2)" by simp
  from s2(4) have fresh2: "getPermission (permissions st2) r a = None \<longrightarrow>
       new_id e3 \<notin> set (map p_id (db_permissions db2))"
    by blast
  note s3 = clickCell_advances [OF s2(1) edit2 s2(5) low h3(1,2) fresh2 c3]
  show "shown (snd (clicks lower [e1] db st r a)) r a = nextStatus (shown st r a)"
    by (simp add: c1 s1(2))
  show "shown (snd (clicks lower [e1, e2] db st r a)) r a = nextStatus (nextStatus (shown st r a))"
    by (simp add: c1 c2 s1(2) s2(2))
  show "shown (snd (clicks lower [e1, e2, e3] db st r a)) r a = shown st r a"
    by (simp add: c1 c2 c3 s1(2) s2(2) s3(2) nextStatus_thrice)
qed

lemma three_clicks_single_variant:
  assumes sync: "in_sync db st" and rend: "rendered_single lower st r a"
    and h1: "write_fault e1 = None" "load_fault e1 = None"
    and h2: "write_fault e2 = None" "load_fault e2 = None"
    and h3: "write_fault e3 = None" "load_fault e3 = None"
    and fresh: "getPermission (permissions st) r a = None \<longrightarrow>
       new_id e1 \<notin> set (map p_id (db_permissions db))"
  shows "shown (snd (clicks_single lower [e1] db st r a)) r a = nextStatus (shown st r a)"
    and "shown (snd (clicks_single lower [e1, e2] db st r a)) r a =
      nextStatus (nextStatus (shown st r a))"
    and "shown (snd (clicks_single lower [e1, e2, e3] db st r a)) r a = shown st r a"
proof -
  obtain db1 st1 t1 where c1: "clickCell_single lower st e1 db st r a = (db1, st1, t1)"
    by (cases "clickCell_single lower st e1 db st r a") auto
  obtain db2 st2 t2 where c2: "clickCell_single lower st1 e2 db1 st1 r a = (db2, st2, t2)"
    by (cases "clickCell_single lower st1 e2 db1 st1 r a") auto
  obtain db3 st3 t3 where c3: "clickCell_single lower st2 e3 db2 st2 r a = (db3, st3, t3)"
    by (cases "clickCell_single lower st2 e3 db2 st2 r a") auto
  note s1 = clickCell_single_advances [OF sync rend h1 fresh c1]
  from s1(3) have fresh1: "getPermission (permissions st1) r a = None \<longrightarrow>
       new_id e2 \<notin> set (map p_id (db_permissions db1))"
    by blast
  note s2 = clickCell_single_advances [OF s1(1) s1(4) h2 fresh1 c2]
  from s2(3) have fresh2: "getPermission (permissions st2) r a = None \<longrightarrow>
       new_id e3 \<notin> set (map p_id (db_permissions db2))"
    by blast
  note s3 = clickCell_single_advances [OF s2(1) s2(4) h3 fresh2 c3]
  show "shown (snd (clicks_single lower [e1] db st r a)) r a = nextStatus (shown st r a)"
    by (simp add: c1 s1(2))
  show "shown (snd (clicks_single lower [e1, e2] db st r a)) r a =
      nextStatus (nextStatus (shown st r a))"
    by (simp add: c1 c2 s1(2) s2(2))
  show "shown (snd (clicks_single lower [e1, e2, e3] db st r a)) r a = shown st r a"
    by (simp add: c1 c2 c3 s1(2) s2(2) s3(2) nextStatus_thrice)
qed

text \<open>
  A click that lands on a render without a row for the pair, when the table has one
  by now: the insert is refused and nothing changes.
\<close>

lemma stale_insert_refused:
  assumes stale: "getPermission (permissions view) r a = None"
    and present: "getPermission (db_permissions db) r a \<noteq> None"
  shows "fst (clickCell lower view e db st r a) = db"
    and "fst (snd (clickCell lower view e db st r a)) = st"
proof -
  from present obtain p where "getPermission (db_permissions db) r a = Some p" by blast
  from getPermission_SomeD [OF this] have "p \<in> set (db_permissions db)" "pair_of p = (r, a)"
    by (simp_all add: matches_pair_of)
  then have "(r, a) \<in> pair_of ` set (db_permissions db)" by (metis imageI)
  then have "(r, a) \<in> set (map pair_of (db_permissions db))" by simp
  then have "\<And>db' s. write_permission e db view r a s \<noteq> Inr db'"
    using stale by (simp add: write_permission_Inr)
  then obtain err where
    "write_permission e db view r a (nextStatus (currentStatus (getPermission (permissions view) r a))) = Inl err"
    by (cases "write_permission e db view r a
        (nextStatus (currentStatus (getPermission (permissions view) r a)))") auto
  then show "fst (clickCell lower view e db st r a) = db"
    and "fst (snd (clickCell lower view e db st r a)) = st"
    by (simp_all add: clickCell_def updatePermission_from_def)
qed

text \<open>
  Claim C4, amended. The handler's next status follows the cycle denied, granted,
  conditional, denied, and three steps return to the start from every status. On the
  running system each toggle advances the shown status by one step, and three toggles
  return it to where it was (from denied, the no-row case included: granted,
  conditional, denied), provided each toggle is made on the render that follows the
  reload of the toggle before it. The other conditions are those of a successful
  toggle: the view in step with the store, the cell in the render (in the view also a
  user who may edit, before and after each reload), every write accepted and every
  reload successful, and for a pair without row an unused identifier. This holds of
  the view with its container and of the single-component revision.
\<close>

theorem toggle_cycle:
  "nextStatus Denied = Granted \<and> nextStatus Granted = Conditional \<and>
   nextStatus Conditional = Denied \<and> nextStatus (nextStatus (nextStatus s)) = s \<and>
   (in_sync db st \<and> lower [] = [] \<and> canEdit (userRole st) \<and> rendered lower st r a \<and>
    write_fault e1 = None \<and> load_fault e1 = None \<and> canEdit (userRole_of (rpc_user_role e1)) \<and>
    write_fault e2 = None \<and> load_fault e2 = None \<and> canEdit (userRole_of (rpc_user_role e2)) \<and>
    write_fault e3 = None \<and> load_fault e3 = None \<and>
    (getPermission (permissions st) r a = None \<longrightarrow>
       new_id e1 \<notin> set (map p_id (db_permissions db))) \<longrightarrow>
      shown (snd (clicks lower [e1] db st r a)) r a = nextStatus (shown st r a) \<and>
      shown (snd (clicks lower [e1, e2] db st r a)) r a = nextStatus (nextStatus (shown st r a)) \<and>
      shown (snd (clicks lower [e1, e2, e3] db st r a)) r a = shown st r a \<and>
      (shown st r a = Denied \<longrightarrow>
         shown (snd (clicks lower [e1] db st r a)) r a = Granted \<and>
         shown (snd (clicks lower [e1, e2] db st r a)) r a = Conditional \<and>
         shown (snd (clicks lower [e1, e2, e3] db st r a)) r a = Denied)) \<and>
   (in_sync db st \<and> rendered_single lower st r a \<and>
    write_fault e1 = None \<and> load_fault e1 = None \<and>
    write_fault e2 = None \<and> load_fault e2 = None \<and>
    write_fault e3 = None \<and> load_fault e3 = None \<and>
    (getPermission (permissions st) r a = None \<longrightarrow>
       new_id e1 \<notin> set (map p_id (db_permissions db))) \<longrightarrow>
      shown (snd (clicks_single lower [e1] db st r a)) r a = nextStatus (shown st r a) \<and>
      shown (snd (clicks_single lower [e1, e2] db st r a)) r a =
        nextStatus (nextStatus (shown st r a)) \<and>
      shown (snd (clicks_single lower [e1, e2, e3] db st r a)) r a = shown st r a \<and>
      (shown st r a = Denied \<longrightarrow>
         shown (snd (clicks_single lower [e1] db st r a)) r a = Granted \<and>
         shown (snd (clicks_single lower [e1, e2] db st r a)) r a = Conditional \<and>
         shown (snd (clicks_single lower [e1, e2, e3] db st r a)) r a = Denied))"
proof -
  have pure: "nextStatus Denied = Granted \<and> nextStatus Granted = Conditional \<and>
      nextStatus Conditional = Denied \<and> nextStatus (nextStatus (nextStatus s)) = s"
    by (simp add: nextStatus_cycle nextStatus_thrice)
  have view: "in_sync db st \<and> lower [] = [] \<and> canEdit (userRole st) \<and> rendered lower st r a \<and>
    write_fault e1 = None \<and> load_fault e1 = None \<and> canEdit (userRole_of (rpc_user_role e1)) \<and>
    write_fault e2 = None \<and> load_fault e2 = None \<and> canEdit (userRole_of (rpc_user_role e2)) \<and>
    write_fault e3 = None \<and> load_fault e3 = None \<and>
    (getPermission (permissions st) r a = None \<longrightarrow>
       new_id e1 \<notin> set (map p_id (db_permissions db))) \<longrightarrow>
      shown (snd (clicks lower [e1] db st r a)) r a = nextStatus (shown st r a) \<and>
      shown (snd (clicks lower [e1, e2] db st r a)) r a = nextStatus (nextStatus (shown st r a)) \<and>
      shown (snd (clicks lower [e1, e2, e3] db st r a)) r a = shown st r a \<and>
      (shown st r a = Denied \<longrightarrow>
         shown (snd (clicks lower [e1] db st r a)) r a = Granted \<and>
         shown (snd (clicks lower [e1, e2] db st r a)) r a = Conditional \<and>
         shown (snd (clicks lower [e1, e2, e3] db st r a)) r a = Denied)"
  proof
    assume hyp: "in_sync db st \<and> lower [] = [] \<and> canEdit (userRole st) \<and> rendered lower st r a \<and>
      write_fault e1 = None \<and> load_fault e1 = None \<and> canEdit (userRole_of (rpc_user_role e1)) \<and>
      write_fault e2 = None \<and> load_fault e2 = None \<and> canEdit (userRole_of (rpc_user_role e2)) \<and>
      write_fault e3 = None \<and> load_fault e3 = None \<and>
      (getPermission (permissions st) r a = None \<longrightarrow>
         new_id e1 \<notin> set (map p_id (db_permissions db)))"
    then have h: "in_sync db st" "lower [] = []" "canEdit (userRole st)" "rendered lower st r a"
      "write_fault e1 = None" "load_fault e1 = None" "canEdit (userRole_of (rpc_user_role e1))"
      "write_fault e2 = None" "load_fault e2 = None" "canEdit (userRole_of (rpc_user_role e2))"
      "write_fault e3 = None" "load_fault e3 = None"
      "getPermission (permissions st) r a = None \<longrightarrow>
         new_id e1 \<notin> set (map p_id (db_permissions db))"
      by simp_all
    note steps = three_clicks_view [OF h]
    from steps show "shown (snd (clicks lower [e1] db st r a)) r a = nextStatus (shown st r a) \<and>
      shown (snd (clicks lower [e1, e2] db st r a)) r a = nextStatus (nextStatus (shown st r a)) \<and>
      shown (snd (clicks lower [e1, e2, e3] db st r a)) r a = shown st r a \<and>
      (shown st r a = Denied \<longrightarrow>
         shown (snd (clicks lower [e1] db st r a)) r a = Granted \<and>
         shown (snd (clicks lower [e1, e2] db st r a)) r a = Conditional \<and>
         shown (snd (clicks lower [e1, e2, e3] db st r a)) r a = Denied)"
      by (simp add: nextStatus_cycle)
  qed
  have single: "in_sync db st \<and> rendered_single lower st r a \<and>
    write_fault e1 = None \<and> load_fault e1 = None \<and>
    write_fault e2 = None \<and> load_fault e2 = None \<and>
    write_fault e3 = None \<and> load_fault e3 = None \<and>
    (getPermission (permissions st) r a = None \<longrightarrow>
       new_id e1 \<notin> set (map p_id (db_permissions db))) \<longrightarrow>
      shown (snd (clicks_single lower [e1] db st r a)) r a = nextStatus (shown st r a) \<and>
      shown (snd (clicks_single lower [e1, e2] db st r a)) r a =
        nextStatus (nextStatus (shown st r a)) \<and>
      shown (snd (clicks_single lower [e1, e2, e3] db st r a)) r a = shown st r a \<and>
      (shown st r a = Denied \<longrightarrow>
         shown (snd (clicks_single lower [e1] db st r a)) r a = Granted \<and>
         shown (snd (clicks_single lower [e1, e2] db st r a)) r a = Conditional \<and>
         shown (snd (clicks_single lower [e1, e2, e3] db st r a)) r a = Denied)"
  proof
    assume hyp: "in_sync db st \<and> rendered_single lower st r a \<and>
      write_fault e1 = None \<and> load_fault e1 = None \<and>
      write_fault e2 = None \<and> load_fault e2 = None \<and>
      write_fault e3 = None \<and> load_fault e3 = None \<and>
      (getPermission (permissions st) r a = None \<longrightarrow>
         new_id e1 \<notin> set (map p_id (db_permissions db)))"
    then have h: "in_sync db st" "rendered_single lower st r a"
      "write_fault e1 = None" "load_fault e1 = None"
      "write_fault e2 = None" "load_fault e2 = None"
      "write_fault e3 = None" "load_fault e3 = None"
      "getPermission (permissions st) r a = None \<longrightarrow>
         new_id e1 \<notin> set (map p_id (db_permissions db))"
      by simp_all
    note steps = three_clicks_single_variant [OF h]
    from steps show "shown (snd (clicks_single lower [e1] db st r a)) r a = nextStatus (shown st r a) \<and>
      shown (snd (clicks_single lower [e1, e2] db st r a)) r a =
        nextStatus (nextStatus (shown st r a)) \<and>
      shown (snd (clicks_single lower [e1, e2, e3] db st r a)) r a = shown st r a \<and>
      (shown st r a = Denied \<longrightarrow>
         shown (snd (clicks_single lower [e1] db st r a)) r a = Granted \<and>
         shown (snd (clicks_single lower [e1, e2] db st r a)) r a = Conditional \<and>
         shown (snd (clicks_single lower [e1, e2, e3] db st r a)) r a = Denied)"
      by (simp add: nextStatus_cycle)
  qed
  from pure view single show ?thesis by blast
qed

text \<open>
  The sample catalog: three toggles of the cell (Employee, Approve Expense Reports),
  which has no row; and in the single-component revision three toggles of (Employee,
  Process Payroll).
\<close>

lemma sample_facts:
  "in_sync sample_store sample_app" "canEdit (userRole sample_app)"
  "getPermission (permissions sample_app) ''r2'' ''a1'' = None"
  "shown sample_app ''r2'' ''a1'' = Denied"
  "write_fault calm = None" "load_fault calm = None" "canEdit (userRole_of (rpc_user_role calm))"
  "write_fault calm2 = None" "load_fault calm2 = None" "canEdit (userRole_of (rpc_user_role calm2))"
  "new_id calm \<notin> set (map p_id (db_permissions sample_store))"
  "toLowerCase [] = []"
  by (simp_all add: in_sync_def sample_store_def sample_app_def canEdit_def getPermission_def
      matches_def manager_approve_def shown_def currentStatus_def calm_def calm2_def
      userRole_of_def toLowerCase_def)

lemma sample_rendered: "rendered toLowerCase sample_app ''r2'' ''a1''"
  by code_simp

lemma single_facts:
  "in_sync sample_store single_app"
  "getPermission (permissions single_app) ''r2'' ''a2'' = None"
  "shown single_app ''r2'' ''a2'' = Denied"
  by (simp_all add: in_sync_def sample_store_def sample_app_def single_app_def getPermission_def
      matches_def manager_approve_def shown_def currentStatus_def)

lemma single_rendered: "rendered_single toLowerCase single_app ''r2'' ''a2''"
  by code_simp

theorem toggle_cycle_witness:
  "in_sync sample_store sample_app \<and> canEdit (userRole sample_app) \<and>
   rendered toLowerCase sample_app ''r2'' ''a1'' \<and>
   getPermission (permissions sample_app) ''r2'' ''a1'' = None \<and>
   shown sample_app ''r2'' ''a1'' = Denied \<and>
   shown (snd (clicks toLowerCase [calm] sample_store sample_app ''r2'' ''a1'')) ''r2'' ''a1'' = Granted \<and>
   shown (snd (clicks toLowerCase [calm, calm2] sample_store sample_app ''r2'' ''a1'')) ''r2'' ''a1'' =
     Conditional \<and>
   shown (snd three_clicks) ''r2'' ''a1'' = Denied \<and>
   rendered_single toLowerCase single_app ''r2'' ''a2'' \<and>
   shown single_app ''r2'' ''a2'' = Denied \<and>
   shown (snd three_clicks_single) ''r2'' ''a2'' = Denied"
proof -
  note cyc = toggle_cycle [of Denied sample_store sample_app toLowerCase "''r2''" "''a1''"
      calm calm2 calm2]
  from cyc sample_facts sample_rendered
  have "shown (snd (clicks toLowerCase [calm] sample_store sample_app ''r2'' ''a1'')) ''r2'' ''a1'' = Granted \<and>
      shown (snd (clicks toLowerCase [calm, calm2] sample_store sample_app ''r2'' ''a1'')) ''r2'' ''a1'' =
        Conditional \<and>
      shown (snd (clicks toLowerCase [calm, calm2, calm2] sample_store sample_app ''r2'' ''a1'')) ''r2'' ''a1'' =
        Denied"
    by blast
  then have view: "shown (snd (clicks toLowerCase [calm] sample_store sample_app ''r2'' ''a1'')) ''r2'' ''a1'' = Granted"
    "shown (snd (clicks toLowerCase [calm, calm2] sample_store sample_app ''r2'' ''a1'')) ''r2'' ''a1'' =
       Conditional"
    "shown (snd three_clicks) ''r2'' ''a1'' = Denied"
    by (simp_all add: three_clicks_def)
  note cyc1 = toggle_cycle [of Denied sample_store single_app toLowerCase "''r2''" "''a2''"
      calm calm2 calm2]
  from cyc1 single_facts single_rendered sample_facts(5,6,8,9,11)
  have "shown (snd (clicks_single toLowerCase [calm, calm2, calm2] sample_store single_app ''r2'' ''a2''))
      ''r2'' ''a2'' = Denied"
    by blast
  then have single: "shown (snd three_clicks_single) ''r2'' ''a2'' = Denied"
    by (simp add: three_clicks_single_def)
  from view single sample_facts(1-4) sample_rendered single_facts(3) single_rendered
  show ?thesis by blast
qed

text \<open>
  The claim as stated fails for toggles in quick succession. Three clicks that all land
  on the first render of the cell (Employee, Approve Expense Reports) each ask for
  granted: the first inserts the row, the other two attempt the same insert and are
  refused, and the cell ends at granted, not at denied.
\<close>

theorem toggle_cycle_rapid_counterexample:
  "in_sync sample_store sample_app \<and> canEdit (userRole sample_app) \<and>
   rendered toLowerCase sample_app ''r2'' ''a1'' \<and>
   write_fault calm = None \<and> load_fault calm = None \<and>
   write_fault calm2 = None \<and> load_fault calm2 = None \<and>
   shown sample_app ''r2'' ''a1'' = Denied \<and>
   shown (snd three_rapid_clicks) ''r2'' ''a1'' = Granted \<and>
   shown (snd three_rapid_clicks) ''r2'' ''a1'' \<noteq> Denied"
proof -
  obtain db1 st1 t1 where
    c1: "clickCell toLowerCase sample_app calm sample_store sample_app ''r2'' ''a1'' = (db1, st1, t1)"
    by (cases "clickCell toLowerCase sample_app calm sample_store sample_app ''r2'' ''a1''") auto
  have fresh: "getPermission (permissions sample_app) ''r2'' ''a1'' = None \<longrightarrow>
      new_id calm \<notin> set (map p_id (db_permissions sample_store))"
    using sample_facts(11) by simp
  note s1 = clickCell_advances [OF sample_facts(1,2) sample_rendered sample_facts(12)
      sample_facts(5,6) fresh c1]
  from s1(1,4) have present: "getPermission (db_permissions db1) ''r2'' ''a1'' \<noteq> None"
    by (simp add: in_sync_def)
  note second = stale_insert_refused [OF sample_facts(3) present, of toLowerCase calm2 st1]
  obtain t2 where
    c2: "clickCell toLowerCase sample_app calm2 db1 st1 ''r2'' ''a1'' = (db1, st1, t2)"
    using second by (cases "clickCell toLowerCase sample_app calm2 db1 st1 ''r2'' ''a1''") auto
  have "three_rapid_clicks = (db1, st1)"
    by (simp add: three_rapid_clicks_def c1 c2)
  then have "snd three_rapid_clicks = st1" by (metis snd_conv)
  moreover from s1(2) sample_facts(4) have "shown st1 ''r2'' ''a1'' = Granted"
    by (simp add: nextStatus_cycle)
  ultimately have "shown (snd three_rapid_clicks) ''r2'' ''a1'' = Granted"
    by metis
  with sample_facts sample_rendered show ?thesis by simp
qed


end
